theory Spec2Isabelle
  imports Complex_Main
begin

section \<open>Strings as Python sees them\<close>

text \<open>
  A Python \<open>str\<close> is modelled as a \<open>string\<close> whose characters are the bytes of its
  UTF-8 encoding.  Every function below that keeps a character keeps an ASCII one, so the
  bytes of a code point beyond ASCII are treated the way the code point is: they are
  outside the class \<open>[a-zA-Z0-9\-_.]\<close> and are no ASCII whitespace.
\<close>

definition in_range :: "char \<Rightarrow> char \<Rightarrow> char \<Rightarrow> bool" where
  "in_range lo hi c = ((of_char lo :: nat) \<le> of_char c \<and> (of_char c :: nat) \<le> of_char hi)"

text \<open>The ASCII members of the regular expression class \<open>\s\<close>.\<close>

definition is_space :: "char \<Rightarrow> bool" where
  "is_space c = (in_range (CHR 0x09) (CHR 0x0D) c \<or> in_range (CHR 0x1C) (CHR 0x20) c)"

text \<open>The class \<open>[a-zA-Z0-9\-_.]\<close>; the second substitution removes its complement.\<close>

definition id_char :: "char \<Rightarrow> bool" where
  "id_char c = (in_range CHR ''a'' CHR ''z'' c \<or> in_range CHR ''A'' CHR ''Z'' c
     \<or> in_range CHR ''0'' CHR ''9'' c \<or> c = CHR ''-'' \<or> c = CHR ''_'' \<or> c = CHR ''.'')"

text \<open>
  \<open>re.sub(r'\s+', '', text)\<close>: scanning from the left, every maximal run of whitespace is
  one match and is replaced by the empty string.
\<close>

function re_sub_space_runs :: "string \<Rightarrow> string" where
  "re_sub_space_runs [] = []"
| "re_sub_space_runs (c # cs) =
     (if is_space c then re_sub_space_runs (dropWhile is_space cs)
      else c # re_sub_space_runs cs)"
  by pat_completeness auto
termination
  by (relation "measure length") (auto simp: length_dropWhile_le less_Suc_eq_le)

text \<open>
  \<open>re.sub(r'[^a-zA-Z0-9\-_.]', '', text)\<close>: every single character outside the class is
  one match and is replaced by the empty string.
\<close>

fun re_sub_non_id :: "string \<Rightarrow> string" where
  "re_sub_non_id [] = []"
| "re_sub_non_id (c # cs) = (if id_char c then c # re_sub_non_id cs else re_sub_non_id cs)"

text \<open>
  \<open>str.lower\<close>.  It is only ever applied to the result of the two substitutions, which
  is ASCII; there it maps \<open>A\<close>..\<open>Z\<close> to \<open>a\<close>..\<open>z\<close> and keeps everything else.
\<close>

definition lower_char :: "char \<Rightarrow> char" where
  "lower_char c = (if in_range CHR ''A'' CHR ''Z'' c then char_of (of_char c + (32::nat)) else c)"

definition py_lower :: "string \<Rightarrow> string" where
  "py_lower s = map lower_char s"

subsection \<open>The identifier builder\<close>

text \<open>\<open>KnowledgeGraphConstructor._sanitize_id\<close>.\<close>

definition sanitize_id :: "string \<Rightarrow> string" where
  "sanitize_id text = py_lower (re_sub_non_id (re_sub_space_runs text))"

text \<open>\<open>KnowledgeGraphConstructor.URI_PREFIX\<close> and \<open>_build_uri\<close>.\<close>

definition URI_PREFIX :: string where
  "URI_PREFIX = ''urn:kg''"

definition build_uri :: "string \<Rightarrow> string" where
  "build_uri eid = URI_PREFIX @ '':'' @ re_sub_non_id (re_sub_space_runs eid)"

text \<open>
  The canonicalisation in the words of the specification: strip all whitespace, then strip
  every character outside \<open>[A-Za-z0-9\-_.]\<close>, then lower-case.
\<close>

definition canonicalize_spec :: "string \<Rightarrow> string" where
  "canonicalize_spec text =
     map lower_char (filter id_char (filter (\<lambda>c. \<not> is_space c) text))"


section \<open>Python values and errors\<close>

text \<open>
  A Python \<open>float\<close>; \<open>json.loads\<close> also reads \<open>Infinity\<close>, \<open>-Infinity\<close> and \<open>NaN\<close>.
\<close>

datatype pyfloat = Finite real | PosInf | NegInf | NotANumber

text \<open>
  What \<open>json.loads\<close> returns: \<open>None\<close>, a \<open>bool\<close>, an \<open>int\<close>, a \<open>float\<close>, a \<open>str\<close>, a
  \<open>list\<close> or a \<open>dict\<close> with string keys.  A \<open>dict\<close> is an association list in insertion
  order; the dictionaries the program builds never repeat a key.
\<close>

datatype json =
    JNull
  | JBool bool
  | JInt int
  | JFloat pyfloat
  | JStr string
  | JArr "json list"
  | JObj "(string \<times> json) list"

type_synonym 'v pydict = "(string \<times> 'v) list"

text \<open>
  The exceptions of the functions modelled here.  \<open>OracleError\<close> stands for whatever
  \<open>LLMClient.generate\<close> raises (missing package, connection, authentication).
  \<open>JSONDecodeError\<close>, \<open>ValueError\<close>, \<open>RecursionError\<close> and \<open>MemoryError\<close> are what
  \<open>json.loads\<close> can raise: the first on text that is not JSON, the others on JSON text
  beyond a limit of the interpreter (an integer literal of more than 4300 digits, nesting
  beyond the recursion limit).
\<close>

datatype py_error =
    AttributeError
  | KeyError string
  | TypeError
  | IndexError
  | ValidationError
  | OracleError
  | JSONDecodeError
  | ValueError
  | RecursionError
  | MemoryError

text \<open>\<open>d.get(k)\<close>, \<open>k in d\<close>, \<open>d[k]\<close>, \<open>d[k] = v\<close> and \<open>d.get(k, default)\<close> on a \<open>dict\<close>.\<close>

definition dict_get :: "'v pydict \<Rightarrow> string \<Rightarrow> 'v option" where
  "dict_get d k = map_of d k"

definition dict_contains :: "'v pydict \<Rightarrow> string \<Rightarrow> bool" where
  "dict_contains d k = (dict_get d k \<noteq> None)"

definition dict_getitem :: "'v pydict \<Rightarrow> string \<Rightarrow> py_error + 'v" where
  "dict_getitem d k = (case dict_get d k of None \<Rightarrow> Inl (KeyError k) | Some v \<Rightarrow> Inr v)"

fun dict_set :: "'v pydict \<Rightarrow> string \<Rightarrow> 'v \<Rightarrow> 'v pydict" where
  "dict_set [] k v = [(k, v)]"
| "dict_set ((k', v') # d) k v =
     (if k' = k then (k', v) # d else (k', v') # dict_set d k v)"

definition dict_get_default :: "'v pydict \<Rightarrow> string \<Rightarrow> 'v \<Rightarrow> 'v" where
  "dict_get_default d k dflt = (case dict_get d k of None \<Rightarrow> dflt | Some v \<Rightarrow> v)"

text \<open>\<open>{**d, **ps}\<close>: the entries of \<open>ps\<close> are stored into \<open>d\<close> one after the other.\<close>

definition dict_update :: "'v pydict \<Rightarrow> 'v pydict \<Rightarrow> 'v pydict" where
  "dict_update d ps = foldl (\<lambda>acc (k, v). dict_set acc k v) d ps"

text \<open>
  Operations of the Python object model on a decoded value: \<open>v[k]\<close> with a string key,
  \<open>v.get(k, default)\<close>, and \<open>for x in v\<close>.
\<close>

definition py_getitem :: "json \<Rightarrow> string \<Rightarrow> py_error + json" where
  "py_getitem v k = (case v of JObj d \<Rightarrow> dict_getitem d k | _ \<Rightarrow> Inl TypeError)"

definition py_get :: "json \<Rightarrow> string \<Rightarrow> json \<Rightarrow> py_error + json" where
  "py_get v k dflt = (case v of JObj d \<Rightarrow> Inr (dict_get_default d k dflt) | _ \<Rightarrow> Inl AttributeError)"

definition py_iter :: "json \<Rightarrow> py_error + json list" where
  "py_iter v =
     (case v of
        JArr xs \<Rightarrow> Inr xs
      | JObj d \<Rightarrow> Inr (map (\<lambda>(k, _). JStr k) d)
      | JStr s \<Rightarrow> Inr (map (\<lambda>c. JStr [c]) s)
      | _ \<Rightarrow> Inl TypeError)"

text \<open>\<open>xs[i]\<close> on a list, \<open>sub in s\<close>, \<open>s.split(sep)\<close> and \<open>sep.join(xs)\<close>.\<close>

definition py_index :: "'a list \<Rightarrow> nat \<Rightarrow> py_error + 'a" where
  "py_index xs i = (if i < length xs then Inr (xs ! i) else Inl IndexError)"

fun starts_with :: "string \<Rightarrow> string \<Rightarrow> bool" where
  "starts_with [] s = True"
| "starts_with (p # ps) [] = False"
| "starts_with (p # ps) (c # cs) = (p = c \<and> starts_with ps cs)"

fun py_in :: "string \<Rightarrow> string \<Rightarrow> bool" where
  "py_in sub [] = (sub = [])"
| "py_in sub (c # cs) = (starts_with sub (c # cs) \<or> py_in sub cs)"

text \<open>
  \<open>split_from sep cur s\<close> scans \<open>s\<close> with the piece read so far in \<open>cur\<close> (reversed).
  Python refuses an empty separator (\<open>ValueError\<close>); the program only splits at the two
  fence literals, and for an empty separator the model never splits.
\<close>

function split_from :: "string \<Rightarrow> string \<Rightarrow> string \<Rightarrow> string list" where
  "split_from sep cur [] = [rev cur]"
| "split_from sep cur (c # cs) =
     (if sep \<noteq> [] \<and> starts_with sep (c # cs)
      then rev cur # split_from sep [] (drop (length sep) (c # cs))
      else split_from sep (c # cur) cs)"
  by pat_completeness auto
termination
  by (relation "measure (\<lambda>(sep, cur, s). length s)") auto

definition py_split :: "string \<Rightarrow> string \<Rightarrow> string list" where
  "py_split sep s = split_from sep [] s"

fun py_join :: "string \<Rightarrow> string list \<Rightarrow> string" where
  "py_join sep [] = []"
| "py_join sep [x] = x"
| "py_join sep (x # y # ys) = x @ sep @ py_join sep (y # ys)"

section \<open>The data model\<close>

text \<open>\<open>SchemaOrgEntity\<close> and \<open>SchemaOrgRelation\<close> of \<open>schemaorg_memory_entry.py\<close>.\<close>

record SchemaOrgEntity =
  entity_id :: string
  name :: string
  schema_type :: string
  schema_uri :: string
  properties :: "json pydict"

record SchemaOrgRelation =
  subject_id :: string
  predicate :: string
  predicate_uri :: string
  object_id :: string

text \<open>
  The three stores of a \<open>KnowledgeGraphConstructor\<close>: \<open>self.entities\<close> (a \<open>dict\<close> from
  entity key to entity, in insertion order), \<open>self.relations\<close> and \<open>self.texts\<close>.
\<close>

record KnowledgeGraph =
  entities :: "SchemaOrgEntity pydict"
  relations :: "SchemaOrgRelation list"
  texts :: "string list"

definition empty_graph :: KnowledgeGraph where
  "empty_graph = \<lparr>entities = [], relations = [], texts = []\<rparr>"

text \<open>
  What a call of \<open>add_text\<close> takes from outside the program: the library functions
  \<open>str.strip\<close> (which removes the whitespace of Unicode at both ends) and \<open>json.loads\<close>
  (the value it returns, or the exception it raises), the identifiers
  \<open>str(uuid.uuid4())\<close> in the order they are drawn, and the reply of the language model to
  the extraction prompt built around the text (or the error the client raises).  All four
  are parameters: what is proved holds for whatever they are.
\<close>

record env =
  str_strip :: "string \<Rightarrow> string"
  json_loads :: "string \<Rightarrow> py_error + json"
  uuid4 :: "nat \<Rightarrow> string"
  generate :: "string \<Rightarrow> py_error + string"

section \<open>The extractor: \<open>SchemaOrgEntityExtractor\<close>\<close>

text \<open>The fence handling of \<open>_parse_response\<close>, up to the call of \<open>json.loads\<close>.\<close>

definition fenced_payload :: "string \<Rightarrow> py_error + string" where
  "fenced_payload response =
     (if py_in ''```json'' response then
        (case py_index (py_split ''```json'' response) 1 of
           Inl e \<Rightarrow> Inl e
         | Inr part \<Rightarrow> py_index (py_split ''```'' part) 0)
      else if py_in ''```'' response then
        (case py_index (py_split ''```'' response) 1 of
           Inl e \<Rightarrow> Inl e
         | Inr part \<Rightarrow> py_index (py_split ''```'' part) 0)
      else Inr response)"

text \<open>
  \<open>_parse_response\<close>.  The handler is \<open>except json.JSONDecodeError\<close>: it prints a
  warning and returns \<open>([], [])\<close>.  Any other exception raised inside the \<open>try\<close>, by
  \<open>json.loads\<close> or by \<open>data.get\<close>, leaves the function.
\<close>

definition parse_response :: "env \<Rightarrow> string \<Rightarrow> py_error + (json \<times> json)" where
  "parse_response w response =
     (case fenced_payload response of
        Inl e \<Rightarrow> Inl e
      | Inr payload \<Rightarrow>
          (case json_loads w (str_strip w payload) of
             Inl e \<Rightarrow> if e = JSONDecodeError then Inr (JArr [], JArr []) else Inl e
           | Inr data \<Rightarrow>
               (case py_get data ''entities'' (JArr []) of
                  Inl e \<Rightarrow> Inl e
                | Inr ents \<Rightarrow>
                    (case py_get data ''relations'' (JArr []) of
                       Inl e \<Rightarrow> Inl e
                     | Inr rels \<Rightarrow> Inr (ents, rels)))))"

text \<open>\<open>extract_entities_and_relations\<close>: ask the model, parse its reply.\<close>

definition extract_entities_and_relations :: "env \<Rightarrow> string \<Rightarrow> py_error + (json \<times> json)" where
  "extract_entities_and_relations w text =
     (case generate w text of
        Inl e \<Rightarrow> Inl e
      | Inr response \<Rightarrow> parse_response w response)"

section \<open>Ingestion: \<open>KnowledgeGraphConstructor.add_text\<close>\<close>

text \<open>
  The constructor call \<open>SchemaOrgEntity(name=..., schema_type=..., schema_uri=...,
  properties=...)\<close>.  The model validates the fields as pydantic 2 does: \<open>name\<close> and
  \<open>schema_type\<close> must be strings and \<open>properties\<close> a \<open>dict\<close>, anything else raises
  \<open>ValidationError\<close> (pydantic 1 would turn a number into a string instead; no
  statement below depends on such an input).  The \<open>schema_uri\<close> is the f-string around
  the type.
\<close>

definition new_entity :: "string \<Rightarrow> json \<Rightarrow> json \<Rightarrow> json \<Rightarrow> py_error + SchemaOrgEntity" where
  "new_entity uuid n t ps =
     (case (n, t, ps) of
        (JStr n', JStr t', JObj d) \<Rightarrow>
          Inr \<lparr>entity_id = uuid, name = n', schema_type = t',
               schema_uri = ''https://schema.org/'' @ t', properties = d\<rparr>
      | _ \<Rightarrow> Inl ValidationError)"

text \<open>The key of an entity in the store: \<open>f"{schema_type}:{_sanitize_id(name)}"\<close>.\<close>

definition entity_key :: "string \<Rightarrow> string \<Rightarrow> string" where
  "entity_key t n = t @ '':'' @ sanitize_id n"

text \<open>
  One round of the first loop.  The result carries the exception, if one was raised, and
  the graph as the round leaves it.
\<close>

definition add_entity :: "string \<Rightarrow> KnowledgeGraph \<Rightarrow> json \<Rightarrow> py_error option \<times> KnowledgeGraph" where
  "add_entity uuid kg entity_data =
     (case py_getitem entity_data ''name'' of
        Inl e \<Rightarrow> (Some e, kg)
      | Inr n \<Rightarrow>
     (case py_getitem entity_data ''type'' of
        Inl e \<Rightarrow> (Some e, kg)
      | Inr t \<Rightarrow>
     (case py_get entity_data ''properties'' (JObj []) of
        Inl e \<Rightarrow> (Some e, kg)
      | Inr ps \<Rightarrow>
     (case new_entity uuid n t ps of
        Inl e \<Rightarrow> (Some e, kg)
      | Inr entity \<Rightarrow>
          (let key = entity_key (schema_type entity) (name entity) in
           if \<not> dict_contains (entities kg) key
           then (None, kg\<lparr>entities := entities kg @ [(key, entity)]\<rparr>)
           else (None, kg))))))"

fun add_entities :: "(nat \<Rightarrow> string) \<Rightarrow> nat \<Rightarrow> KnowledgeGraph \<Rightarrow> json list \<Rightarrow> py_error option \<times> KnowledgeGraph" where
  "add_entities ids i kg [] = (None, kg)"
| "add_entities ids i kg (x # xs) =
     (case add_entity (ids i) kg x of
        (Some e, kg') \<Rightarrow> (Some e, kg')
      | (None, kg') \<Rightarrow> add_entities ids (Suc i) kg' xs)"

text \<open>\<open>_find_entity_key\<close>: the first key, in the order of the store, whose entity has the
  sanitized name.\<close>

fun find_key_in :: "SchemaOrgEntity pydict \<Rightarrow> string \<Rightarrow> string option" where
  "find_key_in [] sanitized_name = None"
| "find_key_in ((key, entity) # es) sanitized_name =
     (if sanitize_id (name entity) = sanitized_name then Some key
      else find_key_in es sanitized_name)"

definition find_entity_key :: "KnowledgeGraph \<Rightarrow> string \<Rightarrow> string option" where
  "find_entity_key kg n = find_key_in (entities kg) (sanitize_id n)"

text \<open>The same on a decoded value: \<open>re.sub\<close> raises \<open>TypeError\<close> on anything but a string.\<close>

definition find_entity_key_of :: "KnowledgeGraph \<Rightarrow> json \<Rightarrow> py_error + string option" where
  "find_entity_key_of kg v =
     (case v of JStr n \<Rightarrow> Inr (find_entity_key kg n) | _ \<Rightarrow> Inl TypeError)"

text \<open>
  The test \<open>if a and b\<close> on two optional strings: \<open>None\<close> and the empty string are
  false.  When the test passes, the result holds the two strings.
\<close>

definition both_truthy :: "string option \<Rightarrow> string option \<Rightarrow> (string \<times> string) option" where
  "both_truthy a b =
     (case (a, b) of
        (Some x, Some y) \<Rightarrow> if x \<noteq> [] \<and> y \<noteq> [] then Some (x, y) else None
      | _ \<Rightarrow> None)"

text \<open>The constructor call \<open>SchemaOrgRelation(...)\<close>, with the argument expressions in
  the order they are evaluated; \<open>predicate\<close> must be a string.\<close>

definition new_relation :: "KnowledgeGraph \<Rightarrow> json \<Rightarrow> string \<Rightarrow> string \<Rightarrow> py_error + SchemaOrgRelation" where
  "new_relation kg rel_data subject_key object_key =
     (case dict_getitem (entities kg) subject_key of
        Inl e \<Rightarrow> Inl e
      | Inr s \<Rightarrow>
     (case py_getitem rel_data ''predicate'' of
        Inl e \<Rightarrow> Inl e
      | Inr p \<Rightarrow>
     (case dict_getitem (entities kg) object_key of
        Inl e \<Rightarrow> Inl e
      | Inr ob \<Rightarrow>
     (case p of
        JStr p' \<Rightarrow>
          Inr \<lparr>subject_id = entity_id s, predicate = p',
               predicate_uri = ''https://schema.org/'' @ p', object_id = entity_id ob\<rparr>
      | _ \<Rightarrow> Inl ValidationError))))"

text \<open>One round of the second loop.\<close>

definition add_relation :: "KnowledgeGraph \<Rightarrow> json \<Rightarrow> py_error option \<times> KnowledgeGraph" where
  "add_relation kg rel_data =
     (case py_getitem rel_data ''subject'' of
        Inl e \<Rightarrow> (Some e, kg)
      | Inr s \<Rightarrow>
     (case find_entity_key_of kg s of
        Inl e \<Rightarrow> (Some e, kg)
      | Inr subject_key \<Rightarrow>
     (case py_getitem rel_data ''object'' of
        Inl e \<Rightarrow> (Some e, kg)
      | Inr ob \<Rightarrow>
     (case find_entity_key_of kg ob of
        Inl e \<Rightarrow> (Some e, kg)
      | Inr object_key \<Rightarrow>
          (case both_truthy subject_key object_key of
             None \<Rightarrow> (None, kg)
           | Some (sk, ok) \<Rightarrow>
               (case new_relation kg rel_data sk ok of
                  Inl e \<Rightarrow> (Some e, kg)
                | Inr relation \<Rightarrow> (None, kg\<lparr>relations := relations kg @ [relation]\<rparr>)))))))"

fun add_relations :: "KnowledgeGraph \<Rightarrow> json list \<Rightarrow> py_error option \<times> KnowledgeGraph" where
  "add_relations kg [] = (None, kg)"
| "add_relations kg (x # xs) =
     (case add_relation kg x of
        (Some e, kg') \<Rightarrow> (Some e, kg')
      | (None, kg') \<Rightarrow> add_relations kg' xs)"

text \<open>
  \<open>add_text\<close>.  The text is logged first; then the extraction, the entity loop and the
  relation loop run, and an exception raised by any of them leaves the graph as it is at
  that moment.
\<close>

definition add_text :: "env \<Rightarrow> KnowledgeGraph \<Rightarrow> string \<Rightarrow> py_error option \<times> KnowledgeGraph" where
  "add_text w kg text =
     (let kg1 = kg\<lparr>texts := texts kg @ [text]\<rparr> in
      case extract_entities_and_relations w text of
        Inl e \<Rightarrow> (Some e, kg1)
      | Inr (ents, rels) \<Rightarrow>
     (case py_iter ents of
        Inl e \<Rightarrow> (Some e, kg1)
      | Inr es \<Rightarrow>
     (case add_entities (uuid4 w) 0 kg1 es of
        (Some e, kg2) \<Rightarrow> (Some e, kg2)
      | (None, kg2) \<Rightarrow>
     (case py_iter rels of
        Inl e \<Rightarrow> (Some e, kg2)
      | Inr rs \<Rightarrow> add_relations kg2 rs))))"

text \<open>\<open>get_stats\<close>: entities, relations, texts processed.\<close>

definition get_stats :: "KnowledgeGraph \<Rightarrow> nat \<times> nat \<times> nat" where
  "get_stats kg = (length (entities kg), length (relations kg), length (texts kg))"

text \<open>The graphs a session can be in: the empty one, and any graph a call of \<open>add_text\<close>
  leaves behind, whether the call returned or raised.\<close>

inductive reachable :: "KnowledgeGraph \<Rightarrow> bool" where
  reachable_empty: "reachable empty_graph"
| reachable_add_text: "reachable kg \<Longrightarrow> reachable (snd (add_text w kg text))"

section \<open>The consumers: \<open>to_jsonld\<close>, \<open>to_rdf\<close> and \<open>query\<close>\<close>

subsection \<open>Linked-data export\<close>

text \<open>The first loop of \<open>to_jsonld\<close>: \<open>entity_uri_map\<close>, from entity id to URI.\<close>

definition entity_uri_map :: "KnowledgeGraph \<Rightarrow> string pydict" where
  "entity_uri_map kg =
     foldl (\<lambda>m (key, entity). dict_set m (entity_id entity) (build_uri (entity_id entity)))
       [] (entities kg)"

text \<open>The second loop: one node per entity, properties spread over the three fixed keys.\<close>

definition make_node :: "string pydict \<Rightarrow> SchemaOrgEntity \<Rightarrow> py_error + json pydict" where
  "make_node m entity =
     (case dict_getitem m (entity_id entity) of
        Inl e \<Rightarrow> Inl e
      | Inr uri \<Rightarrow>
          Inr (dict_update
                 [(''@id'', JStr uri), (''@type'', JStr (schema_type entity)),
                  (''name'', JStr (name entity))]
                 (properties entity)))"

fun make_nodes :: "string pydict \<Rightarrow> SchemaOrgEntity pydict \<Rightarrow> py_error + json pydict list" where
  "make_nodes m [] = Inr []"
| "make_nodes m ((key, entity) # es) =
     (case make_node m entity of
        Inl e \<Rightarrow> Inl e
      | Inr node \<Rightarrow>
          (case make_nodes m es of Inl e \<Rightarrow> Inl e | Inr g \<Rightarrow> Inr (node # g)))"

text \<open>
  The inner loop: the first node whose \<open>@id\<close> equals the subject URI receives the
  reference under the predicate, and the scan stops.
\<close>

fun attach :: "json pydict list \<Rightarrow> string \<Rightarrow> string \<Rightarrow> json \<Rightarrow> py_error + json pydict list" where
  "attach [] subject_uri p v = Inr []"
| "attach (node # g) subject_uri p v =
     (case dict_getitem node ''@id'' of
        Inl e \<Rightarrow> Inl e
      | Inr i \<Rightarrow>
          if i = JStr subject_uri then Inr (dict_set node p v # g)
          else (case attach g subject_uri p v of
                  Inl e \<Rightarrow> Inl e
                | Inr g' \<Rightarrow> Inr (node # g')))"

text \<open>The guard of the third loop: both ends of the relation have a URI in the map.\<close>

definition jsonld_guard :: "string pydict \<Rightarrow> SchemaOrgRelation \<Rightarrow> (string \<times> string) option" where
  "jsonld_guard m relation =
     both_truthy (dict_get m (subject_id relation)) (dict_get m (object_id relation))"

fun attach_relations :: "string pydict \<Rightarrow> json pydict list \<Rightarrow> SchemaOrgRelation list \<Rightarrow> py_error + json pydict list" where
  "attach_relations m g [] = Inr g"
| "attach_relations m g (relation # rs) =
     (case jsonld_guard m relation of
        None \<Rightarrow> attach_relations m g rs
      | Some (subject_uri, object_uri) \<Rightarrow>
          (case attach g subject_uri (predicate relation) (JObj [(''@id'', JStr object_uri)]) of
             Inl e \<Rightarrow> Inl e
           | Inr g' \<Rightarrow> attach_relations m g' rs))"

text \<open>The node list of \<open>to_jsonld\<close>, and the document around it.\<close>

definition jsonld_graph :: "KnowledgeGraph \<Rightarrow> py_error + json pydict list" where
  "jsonld_graph kg =
     (let m = entity_uri_map kg in
      case make_nodes m (entities kg) of
        Inl e \<Rightarrow> Inl e
      | Inr g \<Rightarrow> attach_relations m g (relations kg))"

definition to_jsonld :: "KnowledgeGraph \<Rightarrow> py_error + json" where
  "to_jsonld kg =
     (case jsonld_graph kg of
        Inl e \<Rightarrow> Inl e
      | Inr g \<Rightarrow> Inr (JObj [(''@context'', JStr ''https://schema.org''),
                             (''@graph'', JArr (map JObj g))]))"

subsection \<open>Triple-text export\<close>

definition newline :: string where
  "newline = [CHR 0x0A]"

definition dquote :: string where
  "dquote = [CHR 0x22]"

definition rdf_header :: "string list" where
  "rdf_header =
     [''@prefix schema: <https://schema.org/> .'',
      ''@prefix kg: <'' @ URI_PREFIX @ '':> .'',
      []]"

definition rdf_entity_lines :: "SchemaOrgEntity \<Rightarrow> string list" where
  "rdf_entity_lines entity =
     [''kg:'' @ sanitize_id (entity_id entity) @ '' a schema:'' @ schema_type entity @ '' ;'',
      ''    schema:name '' @ dquote @ name entity @ dquote @ '' .'',
      []]"

definition rdf_relation_line :: "SchemaOrgRelation \<Rightarrow> string" where
  "rdf_relation_line relation =
     ''kg:'' @ sanitize_id (subject_id relation) @ '' schema:'' @ predicate relation
       @ '' kg:'' @ sanitize_id (object_id relation) @ '' .''"

definition rdf_lines :: "KnowledgeGraph \<Rightarrow> string list" where
  "rdf_lines kg =
     rdf_header
     @ concat (map (\<lambda>(key, entity). rdf_entity_lines entity) (entities kg))
     @ map rdf_relation_line (relations kg)"

definition to_rdf :: "KnowledgeGraph \<Rightarrow> string" where
  "to_rdf kg = py_join newline (rdf_lines kg)"

text \<open>
  Reading the export back: its lines are the pieces between line feeds, and the count the
  specification takes is that of the non-empty lines after the two header lines.
\<close>

fun lines_from :: "string \<Rightarrow> string \<Rightarrow> string list" where
  "lines_from cur [] = [rev cur]"
| "lines_from cur (c # cs) =
     (if c = CHR 0x0A then rev cur # lines_from [] cs else lines_from (c # cur) cs)"

definition text_lines :: "string \<Rightarrow> string list" where
  "text_lines s = lines_from [] s"

definition rdf_statement_count :: "string \<Rightarrow> nat" where
  "rdf_statement_count doc = length (filter (\<lambda>l. l \<noteq> []) (drop 2 (text_lines doc)))"

subsection \<open>Query context\<close>

text \<open>
  \<open>next((e for e in self.entities.values() if e.entity_id == i), None)\<close>: the first
  stored entity with the identifier.
\<close>

definition entity_by_id :: "KnowledgeGraph \<Rightarrow> string \<Rightarrow> SchemaOrgEntity option" where
  "entity_by_id kg i = find (\<lambda>e. entity_id e = i) (map snd (entities kg))"

text \<open>The guard of the second loop of \<open>query\<close>; an entity object is always true.\<close>

definition query_guard :: "KnowledgeGraph \<Rightarrow> SchemaOrgRelation \<Rightarrow> (SchemaOrgEntity \<times> SchemaOrgEntity) option" where
  "query_guard kg relation =
     (case (entity_by_id kg (subject_id relation), entity_by_id kg (object_id relation)) of
        (Some subject, Some obj) \<Rightarrow> Some (subject, obj)
      | _ \<Rightarrow> None)"

text \<open>The lines of the context; \<open>str_of\<close> is Python's \<open>str\<close> on a property value.\<close>

definition context_entity_line :: "(json \<Rightarrow> string) \<Rightarrow> SchemaOrgEntity \<Rightarrow> string" where
  "context_entity_line str_of entity =
     name entity @ '' (type: '' @ schema_type entity @ '', ''
       @ py_join '', '' (map (\<lambda>(k, v). k @ '': '' @ str_of v) (properties entity)) @ '')''"

definition context_relation_lines :: "KnowledgeGraph \<Rightarrow> SchemaOrgRelation \<Rightarrow> string list" where
  "context_relation_lines kg relation =
     (case query_guard kg relation of
        None \<Rightarrow> []
      | Some (subject, obj) \<Rightarrow> [name subject @ '' '' @ predicate relation @ '' '' @ name obj])"

definition context_parts :: "(json \<Rightarrow> string) \<Rightarrow> KnowledgeGraph \<Rightarrow> string list" where
  "context_parts str_of kg =
     map (\<lambda>(key, entity). context_entity_line str_of entity) (entities kg)
     @ concat (map (context_relation_lines kg) (relations kg))"

definition query_context :: "(json \<Rightarrow> string) \<Rightarrow> KnowledgeGraph \<Rightarrow> string" where
  "query_context str_of kg = py_join newline (context_parts str_of kg)"

definition query_prompt :: "string \<Rightarrow> string \<Rightarrow> string" where
  "query_prompt context question =
     ''Based on the following knowledge graph, answer the question.'' @ newline @ newline
     @ ''Knowledge Graph:'' @ newline @ context @ newline @ newline
     @ ''Question: '' @ question @ newline @ newline
     @ ''Answer concisely based only on the information in the knowledge graph.''"

text \<open>\<open>query\<close>: the reply of the language model \<open>llm\<close> to the prompt.\<close>

definition query :: "(json \<Rightarrow> string) \<Rightarrow> (string \<Rightarrow> py_error + string) \<Rightarrow> KnowledgeGraph \<Rightarrow> string \<Rightarrow> py_error + string" where
  "query str_of llm kg question = llm (query_prompt (query_context str_of kg) question)"

section \<open>Notions used in the statements\<close>

text \<open>The identifiers of the stored entities.\<close>

definition stored_ids :: "KnowledgeGraph \<Rightarrow> string set" where
  "stored_ids kg = set (map (\<lambda>(key, entity). entity_id entity) (entities kg))"


text \<open>Two names that differ in casing and whitespace only.\<close>

definition same_modulo_case_space :: "string \<Rightarrow> string \<Rightarrow> bool" where
  "same_modulo_case_space a b =
     (map lower_char (filter (\<lambda>c. \<not> is_space c) a)
        = map lower_char (filter (\<lambda>c. \<not> is_space c) b))"

text \<open>
  A reply in the shape the extraction prompt asks for: an object whose \<open>entities\<close>, if
  present, is a list of objects with a string \<open>name\<close>, a string \<open>type\<close> and, if present,
  an object under \<open>properties\<close>, and whose \<open>relations\<close>, if present, is a list of objects
  with string \<open>subject\<close>, \<open>predicate\<close> and \<open>object\<close>.
\<close>

definition has_string :: "json pydict \<Rightarrow> string \<Rightarrow> bool" where
  "has_string d k = (case dict_get d k of Some (JStr s) \<Rightarrow> True | _ \<Rightarrow> False)"

definition wf_entity_record :: "json \<Rightarrow> bool" where
  "wf_entity_record v =
     (case v of
        JObj d \<Rightarrow>
          has_string d ''name'' \<and> has_string d ''type''
          \<and> (case dict_get d ''properties'' of None \<Rightarrow> True | Some (JObj ps) \<Rightarrow> True | _ \<Rightarrow> False)
      | _ \<Rightarrow> False)"

definition wf_relation_record :: "json \<Rightarrow> bool" where
  "wf_relation_record v =
     (case v of
        JObj d \<Rightarrow> has_string d ''subject'' \<and> has_string d ''predicate'' \<and> has_string d ''object''
      | _ \<Rightarrow> False)"

definition wf_extraction :: "json \<Rightarrow> bool" where
  "wf_extraction data =
     (case data of
        JObj d \<Rightarrow>
          (case dict_get d ''entities'' of
             None \<Rightarrow> True | Some (JArr es) \<Rightarrow> list_all wf_entity_record es | _ \<Rightarrow> False)
          \<and> (case dict_get d ''relations'' of
             None \<Rightarrow> True | Some (JArr rs) \<Rightarrow> list_all wf_relation_record rs | _ \<Rightarrow> False)
      | _ \<Rightarrow> False)"

text \<open>
  A reply on whose stripped payload \<open>json.loads\<close> raises \<open>JSONDecodeError\<close> or returns
  a value in that shape.
\<close>

definition wf_reply :: "env \<Rightarrow> string \<Rightarrow> bool" where
  "wf_reply w response =
     (case fenced_payload response of
        Inl e \<Rightarrow> False
      | Inr payload \<Rightarrow>
          (case json_loads w (str_strip w payload) of
             Inl e \<Rightarrow> e = JSONDecodeError
           | Inr data \<Rightarrow> wf_extraction data))"

text \<open>A string without a line feed.\<close>

definition one_line :: "string \<Rightarrow> bool" where
  "one_line s = (CHR 0x0A \<notin> set s)"

text \<open>A node as the export keeps it: a dictionary without repeated keys that has an \<open>@id\<close>.\<close>

definition node_ok :: "json pydict \<Rightarrow> bool" where
  "node_ok node = (dict_get node ''@id'' \<noteq> None \<and> distinct (map fst node))"

text \<open>
  What the third loop of \<open>to_jsonld\<close> does to one node when the relations \<open>rs\<close> reach it,
  in their order: each stores its reference under its predicate.
\<close>

definition write_refs :: "json pydict \<Rightarrow> SchemaOrgRelation list \<Rightarrow> json pydict" where
  "write_refs node rs =
     foldl (\<lambda>n r. dict_set n (predicate r) (JObj [(''@id'', JStr (build_uri (object_id r)))]))
       node rs"

section \<open>Example graphs and environments\<close>

text \<open>Two entities of different types whose names have the same canonical form.\<close>

definition two_types :: KnowledgeGraph where
  "two_types =
     \<lparr>entities =
        [(''Organization:apple'',
          \<lparr>entity_id = ''id-1'', name = ''Apple'', schema_type = ''Organization'',
           schema_uri = ''https://schema.org/Organization'', properties = []\<rparr>),
         (''Product:apple'',
          \<lparr>entity_id = ''id-2'', name = ''apple'', schema_type = ''Product'',
           schema_uri = ''https://schema.org/Product'', properties = []\<rparr>)],
      relations = [], texts = []\<rparr>"

text \<open>
  The replies of the example environments are ASCII text.  On ASCII text \<open>str.strip\<close>
  removes the characters of \<open>is_space\<close> at both ends, and the example environments take
  this for their \<open>str.strip\<close>.
\<close>

definition strip_ascii :: "string \<Rightarrow> string" where
  "strip_ascii s = rev (dropWhile is_space (rev (dropWhile is_space s)))"




text \<open>
  The scenario of the specification: the text about Alice and Google, a reply naming two
  entities and two relations, the second towards a name that was never extracted.  The
  decoder of the environment yields \<open>demo_data\<close> on the payload \<open>DATA\<close>, which stands for
  its JSON text.
\<close>

definition demo_text :: string where
  "demo_text = ''Alice works at Google as a software engineer.''"

definition demo_data :: json where
  "demo_data =
     JObj [(''entities'', JArr
              [JObj [(''name'', JStr ''Alice''), (''type'', JStr ''Person''),
                     (''properties'', JObj [(''jobTitle'', JStr ''software engineer'')])],
               JObj [(''name'', JStr ''Google''), (''type'', JStr ''Organization'')]]),
           (''relations'', JArr
              [JObj [(''subject'', JStr ''Alice''), (''predicate'', JStr ''worksFor''),
                     (''object'', JStr ''Google'')],
               JObj [(''subject'', JStr ''Alice''), (''predicate'', JStr ''knows''),
                     (''object'', JStr ''Bob'')]])]"

definition demo_env :: env where
  "demo_env =
     \<lparr>str_strip = strip_ascii,
      json_loads = (\<lambda>s. if s = ''DATA'' then Inr demo_data else Inl JSONDecodeError),
      uuid4 = (\<lambda>i. if i = 0 then ''id-0'' else ''id-1''),
      generate = (\<lambda>t. Inr ''```json DATA ```'')\<rparr>"

definition alice :: SchemaOrgEntity where
  "alice = \<lparr>entity_id = ''id-0'', name = ''Alice'', schema_type = ''Person'',
            schema_uri = ''https://schema.org/Person'',
            properties = [(''jobTitle'', JStr ''software engineer'')]\<rparr>"

definition google :: SchemaOrgEntity where
  "google = \<lparr>entity_id = ''id-1'', name = ''Google'', schema_type = ''Organization'',
             schema_uri = ''https://schema.org/Organization'', properties = []\<rparr>"

definition works_for :: SchemaOrgRelation where
  "works_for = \<lparr>subject_id = ''id-0'', predicate = ''worksFor'',
                predicate_uri = ''https://schema.org/worksFor'', object_id = ''id-1''\<rparr>"

definition demo_graph :: KnowledgeGraph where
  "demo_graph =
     \<lparr>entities = [(''Person:alice'', alice), (''Organization:google'', google)],
      relations = [works_for],
      texts = [demo_text]\<rparr>"

definition knows_bob :: json where
  "knows_bob = JObj [(''subject'', JStr ''Alice''), (''predicate'', JStr ''knows''),
                     (''object'', JStr ''Bob'')]"

text \<open>A second mention of Google, in other casing and with other properties.\<close>

definition google_again :: "(string \<times> json) list" where
  "google_again = [(''name'', JStr '' GOOGLE ''), (''type'', JStr ''Organization''),
                   (''properties'', JObj [(''url'', JStr ''https://google.com'')])]"

text \<open>An environment whose model replies with the JSON text of an empty list.\<close>

definition list_env :: env where
  "list_env =
     \<lparr>str_strip = strip_ascii,
      json_loads = (\<lambda>s. if s = ''[]'' then Inr (JArr []) else Inl JSONDecodeError),
      uuid4 = (\<lambda>i. ''id-0''),
      generate = (\<lambda>t. Inr ''[]'')\<rparr>"

text \<open>An environment whose model names a person over two lines.\<close>

definition two_line_env :: env where
  "two_line_env =
     \<lparr>str_strip = strip_ascii,
      json_loads = (\<lambda>s. if s = ''DATA''
         then Inr (JObj [(''entities'', JArr
                [JObj [(''name'', JStr (''Ann'' @ newline @ ''Lee'')), (''type'', JStr ''Person'')]])])
         else Inl JSONDecodeError),
      uuid4 = (\<lambda>i. ''id-0''),
      generate = (\<lambda>t. Inr ''DATA'')\<rparr>"

text \<open>Alice with two employers, one relation after the other.\<close>

definition acme :: SchemaOrgEntity where
  "acme = \<lparr>entity_id = ''id-2'', name = ''Acme'', schema_type = ''Organization'',
           schema_uri = ''https://schema.org/Organization'', properties = []\<rparr>"

definition works_for_acme :: SchemaOrgRelation where
  "works_for_acme = \<lparr>subject_id = ''id-0'', predicate = ''worksFor'',
                     predicate_uri = ''https://schema.org/worksFor'', object_id = ''id-2''\<rparr>"

definition two_jobs :: KnowledgeGraph where
  "two_jobs =
     \<lparr>entities = [(''Person:alice'', alice), (''Organization:google'', google),
                  (''Organization:acme'', acme)],
      relations = [works_for, works_for_acme],
      texts = [demo_text]\<rparr>"

text \<open>An environment whose model uses \<open>@id\<close> as the predicate of two relations of Alice.\<close>

definition at_id_env :: env where
  "at_id_env =
     \<lparr>str_strip = strip_ascii,
      json_loads = (\<lambda>s. if s = ''DATA''
         then Inr (JObj
           [(''entities'', JArr
              [JObj [(''name'', JStr ''Alice''), (''type'', JStr ''Person'')],
               JObj [(''name'', JStr ''Google''), (''type'', JStr ''Organization'')],
               JObj [(''name'', JStr ''Acme''), (''type'', JStr ''Organization'')]]),
            (''relations'', JArr
              [JObj [(''subject'', JStr ''Alice''), (''predicate'', JStr ''@id''),
                     (''object'', JStr ''Google'')],
               JObj [(''subject'', JStr ''Alice''), (''predicate'', JStr ''@id''),
                     (''object'', JStr ''Acme'')]])])
         else Inl JSONDecodeError),
      uuid4 = (\<lambda>i. if i = 0 then ''id-0'' else if i = 1 then ''id-1'' else ''id-2''),
      generate = (\<lambda>t. Inr ''DATA'')\<rparr>"

section \<open>The consumers on an object store\<close>

text \<open>
  The consumers write to objects: \<open>lines\<close>, \<open>context_parts\<close>, \<open>graph\<close> and
  \<open>entity_uri_map\<close> are created empty by the call and filled with strings and
  references, and a node of \<open>to_jsonld\<close> is a dictionary built by spreading
  \<open>entity.properties\<close> and written to afterwards (\<open>node[relation.predicate] = ...\<close>).
  Whether such a write can reach a stored dictionary is a question of object identity,
  which the functions above, working on values, cannot ask.  Here the dictionaries of JSON
  values live in a heap, a list in which a position is an address; an entity refers to
  its properties by address, and so does \<open>graph\<close> to its nodes.
\<close>

type_synonym heap = "json pydict list"

record EntityObject =
  obj_entity_id :: string
  obj_name :: string
  obj_schema_type :: string
  obj_schema_uri :: string
  obj_properties :: nat

record GraphObjects =
  obj_entities :: "EntityObject pydict"
  obj_relations :: "SchemaOrgRelation list"
  obj_texts :: "string list"

text \<open>Reading the dictionary at an address; Python has no reference to nothing.\<close>

definition heap_get :: "heap \<Rightarrow> nat \<Rightarrow> json pydict" where
  "heap_get h a = (if a < length h then h ! a else [])"

text \<open>The graph, as a value, that the objects stand for in a heap.\<close>

definition entity_of :: "heap \<Rightarrow> EntityObject \<Rightarrow> SchemaOrgEntity" where
  "entity_of h eo =
     \<lparr>entity_id = obj_entity_id eo, name = obj_name eo, schema_type = obj_schema_type eo,
      schema_uri = obj_schema_uri eo, properties = heap_get h (obj_properties eo)\<rparr>"

definition graph_of :: "heap \<Rightarrow> GraphObjects \<Rightarrow> KnowledgeGraph" where
  "graph_of h og =
     \<lparr>entities = map (\<lambda>(key, eo). (key, entity_of h eo)) (obj_entities og),
      relations = obj_relations og,
      texts = obj_texts og\<rparr>"

text \<open>Every entity refers to an allocated dictionary.\<close>

definition refs_allocated :: "heap \<Rightarrow> GraphObjects \<Rightarrow> bool" where
  "refs_allocated h og = (\<forall>(key, eo) \<in> set (obj_entities og). obj_properties eo < length h)"

text \<open>
  The node loop of \<open>to_jsonld\<close>: the dictionary display allocates a new dictionary, filled
  from the three fixed keys and from what the properties dictionary holds at that moment.
\<close>

definition make_node_at :: "string pydict \<Rightarrow> heap \<Rightarrow> EntityObject \<Rightarrow> py_error + (nat \<times> heap)" where
  "make_node_at m h eo =
     (case dict_getitem m (obj_entity_id eo) of
        Inl e \<Rightarrow> Inl e
      | Inr uri \<Rightarrow>
          Inr (length h,
               h @ [dict_update
                      [(''@id'', JStr uri), (''@type'', JStr (obj_schema_type eo)),
                       (''name'', JStr (obj_name eo))]
                      (heap_get h (obj_properties eo))]))"

fun make_nodes_at :: "string pydict \<Rightarrow> heap \<Rightarrow> EntityObject pydict \<Rightarrow> py_error + (nat list \<times> heap)" where
  "make_nodes_at m h [] = Inr ([], h)"
| "make_nodes_at m h ((key, eo) # es) =
     (case make_node_at m h eo of
        Inl e \<Rightarrow> Inl e
      | Inr (a, h1) \<Rightarrow>
          (case make_nodes_at m h1 es of
             Inl e \<Rightarrow> Inl e
           | Inr (as, h2) \<Rightarrow> Inr (a # as, h2)))"

text \<open>The inner loop: the write goes to the dictionary at the address found in \<open>graph\<close>.\<close>

fun attach_at :: "heap \<Rightarrow> nat list \<Rightarrow> string \<Rightarrow> string \<Rightarrow> json \<Rightarrow> py_error + heap" where
  "attach_at h [] subject_uri p v = Inr h"
| "attach_at h (a # as) subject_uri p v =
     (case dict_getitem (heap_get h a) ''@id'' of
        Inl e \<Rightarrow> Inl e
      | Inr i \<Rightarrow>
          if i = JStr subject_uri then Inr (h[a := dict_set (heap_get h a) p v])
          else attach_at h as subject_uri p v)"

fun attach_relations_at :: "string pydict \<Rightarrow> heap \<Rightarrow> nat list \<Rightarrow> SchemaOrgRelation list \<Rightarrow> py_error + heap" where
  "attach_relations_at m h graph [] = Inr h"
| "attach_relations_at m h graph (relation # rs) =
     (case jsonld_guard m relation of
        None \<Rightarrow> attach_relations_at m h graph rs
      | Some (subject_uri, object_uri) \<Rightarrow>
          (case attach_at h graph subject_uri (predicate relation) (JObj [(''@id'', JStr object_uri)]) of
             Inl e \<Rightarrow> Inl e
           | Inr h' \<Rightarrow> attach_relations_at m h' graph rs))"

text \<open>
  \<open>to_jsonld\<close> on the store: the addresses of the nodes and the heap the call leaves.
  \<open>entity_uri_map\<close> is built from the identifiers alone.
\<close>

definition jsonld_graph_at :: "heap \<Rightarrow> GraphObjects \<Rightarrow> py_error + (nat list \<times> heap)" where
  "jsonld_graph_at h og =
     (let m = entity_uri_map (graph_of h og) in
      case make_nodes_at m h (obj_entities og) of
        Inl e \<Rightarrow> Inl e
      | Inr (graph, h1) \<Rightarrow>
          (case attach_relations_at m h1 graph (obj_relations og) of
             Inl e \<Rightarrow> Inl e
           | Inr h2 \<Rightarrow> Inr (graph, h2)))"

definition to_jsonld_at :: "heap \<Rightarrow> GraphObjects \<Rightarrow> py_error + (json \<times> heap)" where
  "to_jsonld_at h og =
     (case jsonld_graph_at h og of
        Inl e \<Rightarrow> Inl e
      | Inr (graph, h') \<Rightarrow>
          Inr (JObj [(''@context'', JStr ''https://schema.org''),
                     (''@graph'', JArr (map (\<lambda>a. JObj (heap_get h' a)) graph))], h'))"

text \<open>
  \<open>to_rdf\<close> and the context of \<open>query\<close> on the store.  They read the entities and the
  relations and append strings to a list of their own; no statement of theirs writes to a
  dictionary, so the heap they leave is the heap they found.
\<close>

definition to_rdf_at :: "heap \<Rightarrow> GraphObjects \<Rightarrow> string \<times> heap" where
  "to_rdf_at h og = (to_rdf (graph_of h og), h)"

definition query_context_at :: "(json \<Rightarrow> string) \<Rightarrow> heap \<Rightarrow> GraphObjects \<Rightarrow> string \<times> heap" where
  "query_context_at str_of h og = (query_context str_of (graph_of h og), h)"

text \<open>The scenario graph as objects: the properties of Alice at address 0, Google's at 1.\<close>

definition demo_heap :: heap where
  "demo_heap = [[(''jobTitle'', JStr ''software engineer'')], []]"

definition demo_objects :: GraphObjects where
  "demo_objects =
     \<lparr>obj_entities =
        [(''Person:alice'',
          \<lparr>obj_entity_id = ''id-0'', obj_name = ''Alice'', obj_schema_type = ''Person'',
           obj_schema_uri = ''https://schema.org/Person'', obj_properties = 0\<rparr>),
         (''Organization:google'',
          \<lparr>obj_entity_id = ''id-1'', obj_name = ''Google'', obj_schema_type = ''Organization'',
           obj_schema_uri = ''https://schema.org/Organization'', obj_properties = 1\<rparr>)],
      obj_relations = [works_for],
      obj_texts = [demo_text]\<rparr>"

text \<open>
  Every graph has such a store: the properties of the entities, one dictionary each, in
  the order of the entity store.
\<close>

definition heap_of :: "KnowledgeGraph \<Rightarrow> heap" where
  "heap_of kg = map (\<lambda>(key, entity). properties entity) (entities kg)"

definition objects_of :: "KnowledgeGraph \<Rightarrow> GraphObjects" where
  "objects_of kg =
     \<lparr>obj_entities =
        map (\<lambda>(a, (key, entity)).
               (key, \<lparr>obj_entity_id = entity_id entity, obj_name = name entity,
                      obj_schema_type = schema_type entity, obj_schema_uri = schema_uri entity,
                      obj_properties = a\<rparr>))
            (enumerate 0 (entities kg)),
      obj_relations = relations kg,
      obj_texts = texts kg\<rparr>"

section \<open>Properties of the identifier builder\<close>

lemma re_sub_space_runs_filter: "re_sub_space_runs s = filter (\<lambda>c. \<not> is_space c) s"
proof (induction s rule: re_sub_space_runs.induct)
  case 1
  show ?case by simp
next
  case (2 c cs)
  have drop: "filter (\<lambda>c. \<not> is_space c) (dropWhile is_space cs) = filter (\<lambda>c. \<not> is_space c) cs"
    by (induction cs) auto
  show ?case
  proof (cases "is_space c")
    case True
    with 2 drop show ?thesis by simp
  next
    case False
    with 2 show ?thesis by simp
  qed
qed

lemma re_sub_non_id_filter: "re_sub_non_id s = filter id_char s"
  by (induction s) auto

lemma id_char_not_space: "id_char c \<Longrightarrow> \<not> is_space c"
  by (auto simp: id_char_def is_space_def in_range_def)

lemma id_char_lower: "id_char c \<Longrightarrow> id_char (lower_char c)"
  by (auto simp: id_char_def lower_char_def in_range_def)

lemma lower_char_idem: "lower_char (lower_char c) = lower_char c"
  by (auto simp: lower_char_def in_range_def)

lemma sanitize_id_filter: "sanitize_id s = map lower_char (filter id_char s)"
proof -
  have "filter id_char (filter (\<lambda>c. \<not> is_space c) s) = filter id_char s"
    by (induction s) (auto dest: id_char_not_space)
  then show ?thesis
    by (simp add: sanitize_id_def py_lower_def re_sub_space_runs_filter re_sub_non_id_filter)
qed

lemma sanitize_id_chars: "c \<in> set (sanitize_id s) \<Longrightarrow> id_char c"
  by (auto simp: sanitize_id_filter id_char_lower)

text \<open>
  C5.  The canonicalisation is a total function computed as the specification says
  (whitespace stripped, then every character outside the class stripped, then lower-cased),
  the empty string is among its values, and it is idempotent.
\<close>

theorem sanitize_id_canonical_idempotent:
  "sanitize_id x = canonicalize_spec x
   \<and> sanitize_id [] = []
   \<and> sanitize_id ''?! #'' = []
   \<and> sanitize_id (sanitize_id x) = sanitize_id x"
proof -
  have spec: "sanitize_id x = canonicalize_spec x"
    by (simp add: sanitize_id_def canonicalize_spec_def py_lower_def
        re_sub_space_runs_filter re_sub_non_id_filter)
  have empty: "sanitize_id [] = []"
    by (simp add: sanitize_id_def py_lower_def)
  have junk: "sanitize_id ''?! #'' = []"
    by (simp add: sanitize_id_filter id_char_def in_range_def)
  have keep: "filter id_char (map lower_char (filter id_char x)) = map lower_char (filter id_char x)"
    by (induction x) (auto simp: id_char_lower)
  have idem: "sanitize_id (sanitize_id x) = sanitize_id x"
    by (simp add: sanitize_id_filter keep lower_char_idem)
  from spec empty junk idem show ?thesis by blast
qed


section \<open>Lookup by name\<close>

lemma find_key_in_None:
  "find_key_in es sn = None \<longleftrightarrow> (\<forall>i < length es. sanitize_id (name (snd (es ! i))) \<noteq> sn)"
proof (induction es)
  case Nil
  show ?case by simp
next
  case (Cons p es)
  obtain k e where p: "p = (k, e)" by (cases p)
  show ?case
  proof (cases "sanitize_id (name e) = sn")
    case True
    then show ?thesis using p by auto
  next
    case False
    then show ?thesis using p Cons.IH by (auto simp: nth_Cons split: nat.splits)
  qed
qed

lemma find_key_in_Some:
  "find_key_in es sn = Some key \<longleftrightarrow>
     (\<exists>i < length es. fst (es ! i) = key \<and> sanitize_id (name (snd (es ! i))) = sn
        \<and> (\<forall>j < i. sanitize_id (name (snd (es ! j))) \<noteq> sn))"
proof (induction es)
  case Nil
  show ?case by simp
next
  case (Cons p es)
  obtain k e where p: "p = (k, e)" by (cases p)
  show ?case
  proof (cases "sanitize_id (name e) = sn")
    case True
    have "(\<exists>i < length (p # es). fst ((p # es) ! i) = key \<and> sanitize_id (name (snd ((p # es) ! i))) = sn
        \<and> (\<forall>j < i. sanitize_id (name (snd ((p # es) ! j))) \<noteq> sn)) \<longleftrightarrow> k = key"
    proof
      assume "\<exists>i < length (p # es). fst ((p # es) ! i) = key \<and> sanitize_id (name (snd ((p # es) ! i))) = sn
        \<and> (\<forall>j < i. sanitize_id (name (snd ((p # es) ! j))) \<noteq> sn)"
      then obtain i where i: "fst ((p # es) ! i) = key"
        and first: "\<forall>j < i. sanitize_id (name (snd ((p # es) ! j))) \<noteq> sn" by blast
      have "i = 0"
      proof (rule ccontr)
        assume "i \<noteq> 0"
        then have "0 < i" by simp
        with first have "sanitize_id (name (snd ((p # es) ! 0))) \<noteq> sn" by blast
        with True p show False by simp
      qed
      with i p show "k = key" by simp
    next
      assume "k = key"
      with True p show "\<exists>i < length (p # es). fst ((p # es) ! i) = key \<and> sanitize_id (name (snd ((p # es) ! i))) = sn
        \<and> (\<forall>j < i. sanitize_id (name (snd ((p # es) ! j))) \<noteq> sn)"
        by (intro exI[of _ 0]) simp
    qed
    with True p show ?thesis by auto
  next
    case False
    have "(\<exists>i < length (p # es). fst ((p # es) ! i) = key \<and> sanitize_id (name (snd ((p # es) ! i))) = sn
        \<and> (\<forall>j < i. sanitize_id (name (snd ((p # es) ! j))) \<noteq> sn))
      \<longleftrightarrow> (\<exists>i < length es. fst (es ! i) = key \<and> sanitize_id (name (snd (es ! i))) = sn
        \<and> (\<forall>j < i. sanitize_id (name (snd (es ! j))) \<noteq> sn))" (is "?L \<longleftrightarrow> ?R")
    proof
      assume ?L
      then obtain i where i: "i < length (p # es)" "fst ((p # es) ! i) = key"
        "sanitize_id (name (snd ((p # es) ! i))) = sn"
        and first: "\<forall>j < i. sanitize_id (name (snd ((p # es) ! j))) \<noteq> sn" by blast
      from i False p obtain i' where i': "i = Suc i'" by (cases i) auto
      have "\<forall>j < i'. sanitize_id (name (snd (es ! j))) \<noteq> sn"
      proof (intro allI impI)
        fix j assume "j < i'"
        then have "Suc j < i" using i' by simp
        with first have "sanitize_id (name (snd ((p # es) ! Suc j))) \<noteq> sn" by blast
        then show "sanitize_id (name (snd (es ! j))) \<noteq> sn" by simp
      qed
      with i i' show ?R by (intro exI[of _ i']) simp
    next
      assume ?R
      then obtain i where i: "i < length es" "fst (es ! i) = key"
        "sanitize_id (name (snd (es ! i))) = sn"
        and first: "\<forall>j < i. sanitize_id (name (snd (es ! j))) \<noteq> sn" by blast
      have "\<forall>j < Suc i. sanitize_id (name (snd ((p # es) ! j))) \<noteq> sn"
      proof (intro allI impI)
        fix j assume j: "j < Suc i"
        show "sanitize_id (name (snd ((p # es) ! j))) \<noteq> sn"
        proof (cases j)
          case 0
          with False p show ?thesis by simp
        next
          case (Suc j')
          with j first show ?thesis by simp
        qed
      qed
      with i show ?L by (intro exI[of _ "Suc i"]) simp
    qed
    with False p Cons.IH show ?thesis by simp
  qed
qed

text \<open>
  C6.  The lookup canonicalises the queried name and scans the store in insertion order.
  It answers with the key of the first entity whose canonical name equals the canonical
  query, whatever the types are, so of two entities of different types with one
  canonical name the one stored first is found; it answers \<open>None\<close> exactly when no stored
  entity matches.  Positions are in the order of storing: the entity loop only ever
  appends to the store.
\<close>

theorem find_entity_key_first_match:
  "(find_entity_key kg n = None \<longleftrightarrow>
      (\<forall>i < length (entities kg). sanitize_id (name (snd (entities kg ! i))) \<noteq> sanitize_id n))
   \<and> (find_entity_key kg n = Some key \<longleftrightarrow>
      (\<exists>i < length (entities kg).
          fst (entities kg ! i) = key
        \<and> sanitize_id (name (snd (entities kg ! i))) = sanitize_id n
        \<and> (\<forall>j < i. sanitize_id (name (snd (entities kg ! j))) \<noteq> sanitize_id n)))
   \<and> (\<exists>new. entities (snd (add_entity uuid kg x)) = entities kg @ new)"
proof -
  have scan: "(find_entity_key kg n = None \<longleftrightarrow>
      (\<forall>i < length (entities kg). sanitize_id (name (snd (entities kg ! i))) \<noteq> sanitize_id n))
   \<and> (find_entity_key kg n = Some key \<longleftrightarrow>
      (\<exists>i < length (entities kg).
          fst (entities kg ! i) = key
        \<and> sanitize_id (name (snd (entities kg ! i))) = sanitize_id n
        \<and> (\<forall>j < i. sanitize_id (name (snd (entities kg ! j))) \<noteq> sanitize_id n)))"
    unfolding find_entity_key_def
    using find_key_in_None [of "entities kg" "sanitize_id n"]
      find_key_in_Some [of "entities kg" "sanitize_id n" key]
    by blast
  have order: "\<exists>new. entities (snd (add_entity uuid kg x)) = entities kg @ new"
    by (auto simp: add_entity_def Let_def split: sum.splits)
  from scan order show ?thesis by blast
qed

lemma san_apple: "sanitize_id '' APPLE '' = ''apple''" "sanitize_id ''Apple'' = ''apple''" "sanitize_id ''apple'' = ''apple''"
    "sanitize_id ''Pear'' = ''pear''"
  by code_simp+

theorem find_entity_key_first_match_witness:
  "find_entity_key two_types '' APPLE '' = Some ''Organization:apple''
   \<and> find_entity_key two_types ''Pear'' = None"
proof -
  have "\<exists>i < length (entities two_types).
          fst (entities two_types ! i) = ''Organization:apple''
        \<and> sanitize_id (name (snd (entities two_types ! i))) = sanitize_id '' APPLE ''
        \<and> (\<forall>j < i. sanitize_id (name (snd (entities two_types ! j))) \<noteq> sanitize_id '' APPLE '')"
    by (intro exI[of _ 0]) (simp add: two_types_def san_apple)
  then have a: "find_entity_key two_types '' APPLE '' = Some ''Organization:apple''"
    using find_entity_key_first_match [of two_types "'' APPLE ''" "''Organization:apple''"] by blast
  have "\<forall>i < length (entities two_types). sanitize_id (name (snd (entities two_types ! i))) \<noteq> sanitize_id ''Pear''"
    by (simp add: two_types_def san_apple less_Suc_eq)
  then have b: "find_entity_key two_types ''Pear'' = None"
    using find_entity_key_first_match [of two_types "''Pear''" "''x''"] by blast
  from a b show ?thesis by simp
qed

section \<open>Fences\<close>

lemma split_from_nonempty: "split_from sep cur s \<noteq> []"
  by (induction sep cur s rule: split_from.induct) auto

lemma split_from_two:
  "sep \<noteq> [] \<Longrightarrow> py_in sep s \<Longrightarrow> 2 \<le> length (split_from sep cur s)"
proof (induction sep cur s rule: split_from.induct)
  case (1 sep cur)
  then show ?case by simp
next
  case (2 sep cur c cs)
  show ?case
  proof (cases "starts_with sep (c # cs)")
    case True
    have "1 \<le> length (split_from sep [] (drop (length sep) (c # cs)))"
      using split_from_nonempty [of sep "[]" "drop (length sep) (c # cs)"]
      by (cases "split_from sep [] (drop (length sep) (c # cs))") auto
    with True 2(3) show ?thesis by simp
  next
    case False
    with 2(4) have "py_in sep cs" by simp
    with False 2(2) 2(3) show ?thesis by simp
  qed
qed

lemma py_index_split_1:
  "sep \<noteq> [] \<Longrightarrow> py_in sep s \<Longrightarrow> \<exists>part. py_index (py_split sep s) 1 = Inr part"
  using split_from_two [of sep s "[]"] by (simp add: py_index_def py_split_def)

lemma py_index_split_0: "\<exists>part. py_index (py_split sep s) 0 = Inr part"
  using split_from_nonempty [of sep "[]" s] by (simp add: py_index_def py_split_def)

lemma fenced_payload_total: "\<exists>payload. fenced_payload response = Inr payload"
proof (cases "py_in ''```json'' response")
  case True
  obtain part where "py_index (py_split ''```json'' response) 1 = Inr part"
    using py_index_split_1 [of "''```json''" response] True by auto
  with True py_index_split_0 [of "''```''" part] show ?thesis
    by (auto simp: fenced_payload_def)
next
  case False
  show ?thesis
  proof (cases "py_in ''```'' response")
    case True
    obtain part where "py_index (py_split ''```'' response) 1 = Inr part"
      using py_index_split_1 [of "''```''" response] True by auto
    with True False py_index_split_0 [of "''```''" part] show ?thesis
      by (auto simp: fenced_payload_def)
  next
    case no: False
    with False show ?thesis by (simp add: fenced_payload_def)
  qed
qed










section \<open>Ingestion steps\<close>

lemma add_entity_cases:
  assumes "add_entity uuid kg x = (err, kg')"
  shows "kg' = kg \<or>
    (\<exists>entity. err = None \<and> entity_id entity = uuid
       \<and> kg' = kg\<lparr>entities := entities kg @ [(entity_key (schema_type entity) (name entity), entity)]\<rparr>)"
proof -
  have id: "new_entity uuid n t ps = Inr entity \<Longrightarrow> entity_id entity = uuid" for n t ps entity
    by (auto simp: new_entity_def split: json.splits)
  from assms show ?thesis
    by (fastforce simp: add_entity_def Let_def split: sum.splits if_splits dest: id)
qed

lemma add_entities_frame:
  "add_entities ids i kg xs = (err, kg') \<Longrightarrow>
     relations kg' = relations kg \<and> texts kg' = texts kg
     \<and> (\<exists>new. entities kg' = entities kg @ new)"
proof (induction xs arbitrary: i kg)
  case Nil
  then show ?case by simp
next
  case (Cons x xs)
  obtain e1 kg1 where step: "add_entity (ids i) kg x = (e1, kg1)"
    by (cases "add_entity (ids i) kg x")
  from add_entity_cases [OF step]
  have frame1: "relations kg1 = relations kg \<and> texts kg1 = texts kg
     \<and> (\<exists>new. entities kg1 = entities kg @ new)"
    by auto
  show ?case
  proof (cases e1)
    case None
    with Cons.prems step have "add_entities ids (Suc i) kg1 xs = (err, kg')" by simp
    from Cons.IH [OF this] frame1 show ?thesis by auto
  next
    case (Some e)
    with Cons.prems step have "kg' = kg1" by simp
    with frame1 show ?thesis by simp
  qed
qed

lemma dict_get_stored:
  "dict_get (entities kg) key = Some entity \<Longrightarrow> entity_id entity \<in> stored_ids kg"
  by (force simp: dict_get_def stored_ids_def dest: map_of_SomeD)

lemma add_relation_cases:
  assumes "add_relation kg x = (err, kg')"
  shows "kg' = kg \<or>
    (\<exists>r. err = None \<and> kg' = kg\<lparr>relations := relations kg @ [r]\<rparr>
       \<and> subject_id r \<in> stored_ids kg \<and> object_id r \<in> stored_ids kg)"
proof -
  have new: "new_relation kg x sk ok = Inr r \<Longrightarrow>
      subject_id r \<in> stored_ids kg \<and> object_id r \<in> stored_ids kg" for sk ok r
    by (auto simp: new_relation_def dict_getitem_def dest: dict_get_stored
        split: sum.splits option.splits json.splits)
  from assms show ?thesis
    by (fastforce simp: add_relation_def split: sum.splits option.splits dest: new)
qed

lemma add_relation_unresolved:
  assumes "py_getitem x ''subject'' = Inr (JStr s)"
    and "py_getitem x ''object'' = Inr (JStr ob)"
    and "find_entity_key kg s = None \<or> find_entity_key kg ob = None"
  shows "add_relation kg x = (None, kg)"
  using assms
  by (auto simp: add_relation_def find_entity_key_of_def both_truthy_def split: option.splits)

lemma add_relations_frame:
  "add_relations kg xs = (err, kg') \<Longrightarrow>
     entities kg' = entities kg \<and> texts kg' = texts kg
     \<and> (\<exists>new. relations kg' = relations kg @ new
           \<and> (\<forall>r \<in> set new. subject_id r \<in> stored_ids kg \<and> object_id r \<in> stored_ids kg))"
proof (induction xs arbitrary: kg)
  case Nil
  then show ?case by simp
next
  case (Cons x xs)
  obtain e1 kg1 where step: "add_relation kg x = (e1, kg1)"
    by (cases "add_relation kg x")
  from add_relation_cases [OF step]
  have frame1: "entities kg1 = entities kg \<and> texts kg1 = texts kg
     \<and> (\<exists>new. relations kg1 = relations kg @ new
           \<and> (\<forall>r \<in> set new. subject_id r \<in> stored_ids kg \<and> object_id r \<in> stored_ids kg))"
    by auto
  then have ids: "stored_ids kg1 = stored_ids kg" by (simp add: stored_ids_def)
  show ?case
  proof (cases e1)
    case None
    with Cons.prems step have "add_relations kg1 xs = (err, kg')" by simp
    from Cons.IH [OF this] frame1 ids show ?thesis by auto
  next
    case (Some e)
    with Cons.prems step have "kg' = kg1" by simp
    with frame1 show ?thesis by simp
  qed
qed

lemma add_text_frame:
  assumes "add_text w kg text = (err, kg')"
  shows "texts kg' = texts kg @ [text]
     \<and> (\<exists>new. entities kg' = entities kg @ new)
     \<and> (\<exists>new. relations kg' = relations kg @ new
           \<and> (\<forall>r \<in> set new. subject_id r \<in> stored_ids kg' \<and> object_id r \<in> stored_ids kg'))"
proof -
  define kg1 where "kg1 = kg\<lparr>texts := texts kg @ [text]\<rparr>"
  have kg1: "texts kg1 = texts kg @ [text]" "entities kg1 = entities kg" "relations kg1 = relations kg"
    by (simp_all add: kg1_def)
  have trivial: "kg' = kg1 \<Longrightarrow> ?thesis"
    using kg1 by simp
  show ?thesis
  proof (cases "extract_entities_and_relations w text")
    case (Inl e)
    with assms have "kg' = kg1" by (simp add: add_text_def kg1_def)
    then show ?thesis by (rule trivial)
  next
    case (Inr pair)
    obtain ents rels where pair: "pair = (ents, rels)" by (cases pair)
    show ?thesis
    proof (cases "py_iter ents")
      case (Inl e)
      with assms Inr pair have "kg' = kg1" by (simp add: add_text_def kg1_def)
      then show ?thesis by (rule trivial)
    next
      case es: (Inr es)
      obtain e2 kg2 where loop1: "add_entities (uuid4 w) 0 kg1 es = (e2, kg2)"
        by (cases "add_entities (uuid4 w) 0 kg1 es")
      from add_entities_frame [OF loop1] kg1
      have f2: "texts kg2 = texts kg @ [text]" "relations kg2 = relations kg"
        "\<exists>new. entities kg2 = entities kg @ new"
        by auto
      have stop: "kg' = kg2 \<Longrightarrow> ?thesis"
        using f2 by simp
      show ?thesis
      proof (cases e2)
        case (Some e)
        with assms Inr pair es loop1 have "kg' = kg2"
          by (simp add: add_text_def kg1_def [symmetric])
        then show ?thesis by (rule stop)
      next
        case None
        show ?thesis
        proof (cases "py_iter rels")
          case (Inl e)
          with assms Inr pair es loop1 None have "kg' = kg2"
            by (simp add: add_text_def kg1_def [symmetric])
          then show ?thesis by (rule stop)
        next
          case rs: (Inr rs)
          with assms Inr pair es loop1 None have loop2: "add_relations kg2 rs = (err, kg')"
            by (simp add: add_text_def kg1_def [symmetric])
          from add_relations_frame [OF loop2]
          have f3: "entities kg' = entities kg2" "texts kg' = texts kg2"
            "\<exists>new. relations kg' = relations kg2 @ new
               \<and> (\<forall>r \<in> set new. subject_id r \<in> stored_ids kg2 \<and> object_id r \<in> stored_ids kg2)"
            by auto
          from f3(1) have "stored_ids kg' = stored_ids kg2" by (simp add: stored_ids_def)
          with f2 f3 show ?thesis by auto
        qed
      qed
    qed
  qed
qed

text \<open>
  C1.  A round of the relation loop leaves the entities alone and either stores nothing
  or appends one relation whose subject and object identifiers are those of entities in
  the store at that moment; a candidate whose subject or object name does not resolve is
  not stored; and every relation a call of \<open>add_text\<close> appends refers to stored entities.
\<close>

theorem relations_reference_stored_entities:
  "(\<forall>x err kg'. add_relation kg x = (err, kg') \<longrightarrow>
       entities kg' = entities kg
     \<and> (relations kg' = relations kg
        \<or> (\<exists>r. relations kg' = relations kg @ [r]
              \<and> subject_id r \<in> stored_ids kg \<and> object_id r \<in> stored_ids kg)))
   \<and> (\<forall>x s ob. py_getitem x ''subject'' = Inr (JStr s) \<and> py_getitem x ''object'' = Inr (JStr ob)
         \<and> (find_entity_key kg s = None \<or> find_entity_key kg ob = None)
       \<longrightarrow> add_relation kg x = (None, kg))
   \<and> (\<forall>w text err kg'. add_text w kg text = (err, kg') \<longrightarrow>
        (\<exists>new. relations kg' = relations kg @ new
           \<and> (\<forall>r \<in> set new. subject_id r \<in> stored_ids kg' \<and> object_id r \<in> stored_ids kg')))"
proof -
  have step: "\<forall>x err kg'. add_relation kg x = (err, kg') \<longrightarrow>
       entities kg' = entities kg
     \<and> (relations kg' = relations kg
        \<or> (\<exists>r. relations kg' = relations kg @ [r]
              \<and> subject_id r \<in> stored_ids kg \<and> object_id r \<in> stored_ids kg))"
    using add_relation_cases by fastforce
  have reject: "\<forall>x s ob. py_getitem x ''subject'' = Inr (JStr s) \<and> py_getitem x ''object'' = Inr (JStr ob)
         \<and> (find_entity_key kg s = None \<or> find_entity_key kg ob = None)
       \<longrightarrow> add_relation kg x = (None, kg)"
    using add_relation_unresolved by blast
  have call: "\<forall>w text err kg'. add_text w kg text = (err, kg') \<longrightarrow>
        (\<exists>new. relations kg' = relations kg @ new
           \<and> (\<forall>r \<in> set new. subject_id r \<in> stored_ids kg' \<and> object_id r \<in> stored_ids kg'))"
    using add_text_frame by blast
  from step reject call show ?thesis by blast
qed

section \<open>The scenario\<close>

lemma demo_add_text: "add_text demo_env empty_graph demo_text = (None, demo_graph)"
  by code_simp

lemma demo_stored_ids: "stored_ids demo_graph = {''id-0'', ''id-1''}"
  by (simp add: stored_ids_def demo_graph_def alice_def google_def)

lemma demo_knows_bob: "find_entity_key demo_graph ''Bob'' = None"
  by code_simp

theorem relations_reference_stored_entities_witness:
  "relations demo_graph = [works_for]
   \<and> subject_id works_for \<in> stored_ids demo_graph
   \<and> object_id works_for \<in> stored_ids demo_graph
   \<and> add_relation demo_graph knows_bob = (None, demo_graph)"
proof -
  have getitem: "py_getitem knows_bob ''subject'' = Inr (JStr ''Alice'')"
    "py_getitem knows_bob ''object'' = Inr (JStr ''Bob'')"
    by (simp_all add: knows_bob_def py_getitem_def dict_getitem_def dict_get_def)
  from relations_reference_stored_entities [of empty_graph] demo_add_text
  obtain new where new: "relations demo_graph = relations empty_graph @ new"
    "\<forall>r \<in> set new. subject_id r \<in> stored_ids demo_graph \<and> object_id r \<in> stored_ids demo_graph"
    by blast
  have rels: "relations demo_graph = [works_for]" by (simp add: demo_graph_def)
  with new(1) have "new = [works_for]" by (simp add: empty_graph_def)
  with new(2) have ids: "subject_id works_for \<in> stored_ids demo_graph"
    "object_id works_for \<in> stored_ids demo_graph" by simp_all
  from relations_reference_stored_entities [of demo_graph] getitem demo_knows_bob
  have "add_relation demo_graph knows_bob = (None, demo_graph)" by blast
  with rels ids show ?thesis by simp
qed

section \<open>Deduplication\<close>

lemma id_char_lower_iff: "id_char (lower_char c) = id_char c"
  by (auto simp: id_char_def lower_char_def in_range_def)

lemma sanitize_id_via_lower_nonspace:
  "sanitize_id s = filter id_char (map lower_char (filter (\<lambda>c. \<not> is_space c) s))"
proof -
  have "filter id_char (map lower_char xs) = map lower_char (filter id_char xs)" for xs
    by (induction xs) (auto simp: id_char_lower_iff)
  moreover have "filter id_char (filter (\<lambda>c. \<not> is_space c) s) = filter id_char s"
    by (induction s) (auto dest: id_char_not_space)
  ultimately show ?thesis by (simp add: sanitize_id_filter)
qed

lemma same_modulo_case_space_sanitize:
  "same_modulo_case_space a b \<Longrightarrow> sanitize_id a = sanitize_id b"
  by (simp add: same_modulo_case_space_def sanitize_id_via_lower_nonspace)

lemma colon_not_id_char: "\<not> id_char CHR '':''"
  by (simp add: id_char_def in_range_def)

lemma split_at_last_colon:
  assumes "t @ CHR '':'' # a = t' @ CHR '':'' # b"
    and "CHR '':'' \<notin> set a" and "CHR '':'' \<notin> set b"
  shows "t = t' \<and> a = b"
proof -
  have tw: "takeWhile (\<lambda>c. c \<noteq> CHR '':'') (rev (x @ CHR '':'' # y)) = rev y"
    if "CHR '':'' \<notin> set y" for x y
    using that by (auto simp: takeWhile_tail)
  from assms(1) have "takeWhile (\<lambda>c. c \<noteq> CHR '':'') (rev (t @ CHR '':'' # a))
      = takeWhile (\<lambda>c. c \<noteq> CHR '':'') (rev (t' @ CHR '':'' # b))" by simp
  with tw [OF assms(2)] tw [OF assms(3)] have "a = b" by simp
  with assms(1) show ?thesis by simp
qed

lemma entity_key_inject:
  "entity_key t n = entity_key t' n' \<longleftrightarrow> t = t' \<and> sanitize_id n = sanitize_id n'"
proof
  assume eq: "entity_key t n = entity_key t' n'"
  have "CHR '':'' \<notin> set (sanitize_id m)" for m
    using sanitize_id_chars colon_not_id_char by blast
  with eq show "t = t' \<and> sanitize_id n = sanitize_id n'"
    using split_at_last_colon [of t "sanitize_id n" t' "sanitize_id n'"]
    by (simp add: entity_key_def)
next
  assume "t = t' \<and> sanitize_id n = sanitize_id n'"
  then show "entity_key t n = entity_key t' n'" by (simp add: entity_key_def)
qed

lemma add_entity_duplicate:
  assumes "dict_get d ''name'' = Some (JStr n)" and "dict_get d ''type'' = Some (JStr t)"
    and "dict_get (entities kg) (entity_key t n) = Some stored"
  shows "snd (add_entity uuid kg (JObj d)) = kg"
  using assms
  by (auto simp: add_entity_def py_getitem_def py_get_def dict_getitem_def new_entity_def
      dict_contains_def Let_def split: json.splits)

text \<open>
  C2.  The key of the store identifies the pair of type and canonical name, and two names
  that differ in casing or whitespace only have the same key under one type.  Ingesting
  an entity whose key is already present leaves the whole graph as it was: the stored
  entity, with its identifier and its properties, stays under the key, and the
  properties of the duplicate are dropped.
\<close>

theorem duplicate_entity_discarded:
  "(same_modulo_case_space m n \<longrightarrow> entity_key t m = entity_key t n)
   \<and> (entity_key t n = entity_key t' n' \<longleftrightarrow> t = t' \<and> sanitize_id n = sanitize_id n')
   \<and> (dict_get d ''name'' = Some (JStr m) \<and> dict_get d ''type'' = Some (JStr t)
        \<and> dict_get (entities kg) (entity_key t m) = Some stored
      \<longrightarrow> snd (add_entity uuid kg (JObj d)) = kg
        \<and> dict_get (entities (snd (add_entity uuid kg (JObj d)))) (entity_key t m) = Some stored)"
proof -
  have a: "same_modulo_case_space m n \<longrightarrow> entity_key t m = entity_key t n"
    using same_modulo_case_space_sanitize [of m n] by (simp add: entity_key_def)
  have b: "entity_key t n = entity_key t' n' \<longleftrightarrow> t = t' \<and> sanitize_id n = sanitize_id n'"
    by (rule entity_key_inject)
  have c: "dict_get d ''name'' = Some (JStr m) \<and> dict_get d ''type'' = Some (JStr t)
        \<and> dict_get (entities kg) (entity_key t m) = Some stored
      \<longrightarrow> snd (add_entity uuid kg (JObj d)) = kg
        \<and> dict_get (entities (snd (add_entity uuid kg (JObj d)))) (entity_key t m) = Some stored"
    using add_entity_duplicate [of d m t kg stored uuid] by simp
  from a b c show ?thesis by blast
qed

theorem duplicate_entity_discarded_witness:
  "same_modulo_case_space '' GOOGLE '' ''Google''
   \<and> entity_key ''Organization'' '' GOOGLE '' = ''Organization:google''
   \<and> add_entity ''id-2'' demo_graph (JObj google_again) = (None, demo_graph)
   \<and> dict_get (entities demo_graph) ''Organization:google'' = Some google"
proof -
  have same: "same_modulo_case_space '' GOOGLE '' ''Google''" by code_simp
  have key: "entity_key ''Organization'' ''Google'' = ''Organization:google''" by code_simp
  have stored: "dict_get (entities demo_graph) ''Organization:google'' = Some google"
    by (simp add: demo_graph_def dict_get_def)
  have none: "fst (add_entity ''id-2'' demo_graph (JObj google_again)) = None" by code_simp
  have fields: "dict_get google_again ''name'' = Some (JStr '' GOOGLE '')"
    "dict_get google_again ''type'' = Some (JStr ''Organization'')"
    by (simp_all add: google_again_def dict_get_def)
  from duplicate_entity_discarded [of "'' GOOGLE ''" "''Google''" "''Organization''"] same key
  have key': "entity_key ''Organization'' '' GOOGLE '' = ''Organization:google''" by simp
  with duplicate_entity_discarded [of "'' GOOGLE ''" "''Google''" "''Organization''" "''Organization''"
      "''Google''" google_again demo_graph google "''id-2''"] fields stored
  have "snd (add_entity ''id-2'' demo_graph (JObj google_again)) = demo_graph" by simp
  with none have "add_entity ''id-2'' demo_graph (JObj google_again) = (None, demo_graph)"
    by (metis prod.collapse)
  with same key' stored show ?thesis by simp
qed

section \<open>Replies in the expected shape\<close>

lemma find_key_in_present:
  "find_key_in es sn = Some k \<Longrightarrow> \<exists>e. dict_get es k = Some e"
  by (induction es) (auto simp: dict_get_def split: if_splits)

lemma add_entity_wf: "wf_entity_record x \<Longrightarrow> fst (add_entity uuid kg x) = None"
  by (auto simp: wf_entity_record_def has_string_def add_entity_def py_getitem_def py_get_def
      dict_getitem_def dict_get_default_def new_entity_def Let_def
      split: json.splits option.splits)

lemma add_entities_wf:
  "list_all wf_entity_record xs \<Longrightarrow> fst (add_entities ids i kg xs) = None"
proof (induction xs arbitrary: i kg)
  case Nil
  show ?case by simp
next
  case (Cons x xs)
  obtain e1 kg1 where step: "add_entity (ids i) kg x = (e1, kg1)"
    by (cases "add_entity (ids i) kg x")
  from Cons.prems have "wf_entity_record x" by simp
  from add_entity_wf [OF this, of "ids i" kg] step have "e1 = None" by simp
  with step Cons show ?case by simp
qed

lemma new_relation_wf:
  assumes "has_string d ''predicate''"
    and "dict_get (entities kg) sk = Some s" and "dict_get (entities kg) ok = Some ob"
  shows "\<exists>r. new_relation kg (JObj d) sk ok = Inr r"
  using assms
  by (auto simp: new_relation_def has_string_def py_getitem_def dict_getitem_def
      split: option.splits json.splits)

lemma add_relation_wf:
  assumes "wf_relation_record x"
  shows "fst (add_relation kg x) = None"
proof -
  from assms obtain d where x: "x = JObj d" and
    str: "has_string d ''subject''" "has_string d ''predicate''" "has_string d ''object''"
    by (auto simp: wf_relation_record_def split: json.splits)
  from str(1) obtain s where s: "py_getitem x ''subject'' = Inr (JStr s)"
    by (auto simp: x has_string_def py_getitem_def dict_getitem_def split: option.splits json.splits)
  from str(3) obtain ob where ob: "py_getitem x ''object'' = Inr (JStr ob)"
    by (auto simp: x has_string_def py_getitem_def dict_getitem_def split: option.splits json.splits)
  show ?thesis
  proof (cases "both_truthy (find_entity_key kg s) (find_entity_key kg ob)")
    case None
    with s ob show ?thesis by (simp add: add_relation_def find_entity_key_of_def)
  next
    case (Some keys)
    obtain sk ok where keys: "keys = (sk, ok)" by (cases keys)
    from Some keys have found: "find_entity_key kg s = Some sk" "find_entity_key kg ob = Some ok"
      by (auto simp: both_truthy_def split: option.splits if_splits)
    from found(1) obtain se where se: "dict_get (entities kg) sk = Some se"
      using find_key_in_present [of "entities kg" "sanitize_id s" sk]
      by (auto simp: find_entity_key_def)
    from found(2) obtain oe where oe: "dict_get (entities kg) ok = Some oe"
      using find_key_in_present [of "entities kg" "sanitize_id ob" ok]
      by (auto simp: find_entity_key_def)
    from new_relation_wf [OF str(2) se oe] obtain r where "new_relation kg x sk ok = Inr r"
      using x by auto
    with s ob Some keys show ?thesis by (simp add: add_relation_def find_entity_key_of_def)
  qed
qed

lemma add_relations_wf:
  "list_all wf_relation_record xs \<Longrightarrow> fst (add_relations kg xs) = None"
proof (induction xs arbitrary: kg)
  case Nil
  show ?case by simp
next
  case (Cons x xs)
  obtain e1 kg1 where step: "add_relation kg x = (e1, kg1)"
    by (cases "add_relation kg x")
  from Cons.prems have "wf_relation_record x" by simp
  from add_relation_wf [OF this, of kg] step have "e1 = None" by simp
  with step Cons show ?case by simp
qed

lemma parse_response_wf:
  assumes "wf_reply w response"
  shows "\<exists>es rs. parse_response w response = Inr (JArr es, JArr rs)
           \<and> list_all wf_entity_record es \<and> list_all wf_relation_record rs"
proof -
  from assms obtain payload where payload: "fenced_payload response = Inr payload"
    by (auto simp: wf_reply_def split: sum.splits)
  show ?thesis
  proof (cases "json_loads w (str_strip w payload)")
    case (Inl e)
    with assms payload have "e = JSONDecodeError" by (simp add: wf_reply_def)
    with Inl payload show ?thesis by (simp add: parse_response_def)
  next
    case (Inr data)
    with assms payload have "wf_extraction data" by (simp add: wf_reply_def)
    then obtain d where d: "data = JObj d"
      and ents: "case dict_get d ''entities'' of None \<Rightarrow> True
                  | Some (JArr es) \<Rightarrow> list_all wf_entity_record es | _ \<Rightarrow> False"
      and rels: "case dict_get d ''relations'' of None \<Rightarrow> True
                  | Some (JArr rs) \<Rightarrow> list_all wf_relation_record rs | _ \<Rightarrow> False"
      by (auto simp: wf_extraction_def split: json.splits)
    from ents obtain es where es: "dict_get_default d ''entities'' (JArr []) = JArr es"
      "list_all wf_entity_record es"
      by (auto simp: dict_get_default_def split: option.splits json.splits)
    from rels obtain rs where rs: "dict_get_default d ''relations'' (JArr []) = JArr rs"
      "list_all wf_relation_record rs"
      by (auto simp: dict_get_default_def split: option.splits json.splits)
    from payload Inr d es rs show ?thesis
      by (simp add: parse_response_def py_get_def)
  qed
qed

text \<open>
  C3, as amended.  A call of \<open>add_text\<close> returns without raising whenever the model
  answers and, on the stripped payload of its reply, \<open>json.loads\<close> either raises
  \<open>JSONDecodeError\<close> or returns a value in the shape the extraction prompt asks for.
\<close>

theorem well_formed_reply_never_raises:
  assumes "generate w text = Inr response"
    and "wf_reply w response"
  shows "fst (add_text w kg text) = None"
proof -
  from parse_response_wf [OF assms(2)] obtain es rs where
    parsed: "parse_response w response = Inr (JArr es, JArr rs)"
    and es: "list_all wf_entity_record es" and rs: "list_all wf_relation_record rs"
    by blast
  define kg1 where "kg1 = kg\<lparr>texts := texts kg @ [text]\<rparr>"
  obtain e2 kg2 where loop1: "add_entities (uuid4 w) 0 kg1 es = (e2, kg2)"
    by (cases "add_entities (uuid4 w) 0 kg1 es")
  from add_entities_wf [OF es, of "uuid4 w" 0 kg1] loop1 have "e2 = None" by simp
  with assms(1) parsed loop1 add_relations_wf [OF rs, of kg2] show ?thesis
    by (simp add: add_text_def extract_entities_and_relations_def py_iter_def kg1_def [symmetric])
qed

theorem well_formed_reply_never_raises_witness:
  "wf_reply demo_env ''```json DATA ```''
   \<and> fst (add_text demo_env empty_graph demo_text) = None"
proof -
  have g: "generate demo_env demo_text = Inr ''```json DATA ```''"
    by (simp add: demo_env_def)
  have wf: "wf_reply demo_env ''```json DATA ```''"
    by code_simp
  from well_formed_reply_never_raises [OF g wf, of empty_graph] wf show ?thesis by simp
qed

text \<open>
  The claim as stated fails: a reply that is valid JSON but no object, here the empty
  list, makes \<open>add_text\<close> raise \<open>AttributeError\<close>, after the text was logged.
\<close>

theorem non_object_reply_raises:
  "add_text list_env empty_graph ''Some text.''
     = (Some AttributeError, \<lparr>entities = [], relations = [], texts = [''Some text.'']\<rparr>)"
  by code_simp

section \<open>Reachable graphs\<close>

lemma dict_get_dict_set:
  "dict_get (dict_set d k v) k' = (if k' = k then Some v else dict_get d k')"
  by (induction d) (auto simp: dict_get_def)

lemma uri_map_fold:
  "dict_get (foldl (\<lambda>m (key, entity). dict_set m (entity_id entity) (build_uri (entity_id entity))) m0 es) i
     = (if i \<in> set (map (\<lambda>(key, entity). entity_id entity) es) then Some (build_uri i)
        else dict_get m0 i)"
  by (induction es arbitrary: m0) (auto simp: dict_get_dict_set)

lemma entity_uri_map_get:
  "dict_get (entity_uri_map kg) i = (if i \<in> stored_ids kg then Some (build_uri i) else None)"
  unfolding entity_uri_map_def stored_ids_def
  by (simp add: uri_map_fold) (simp add: dict_get_def)

lemma build_uri_nonempty: "build_uri i \<noteq> []"
  by (simp add: build_uri_def URI_PREFIX_def)

lemma jsonld_guard_stored:
  "subject_id r \<in> stored_ids kg \<Longrightarrow> object_id r \<in> stored_ids kg \<Longrightarrow>
     jsonld_guard (entity_uri_map kg) r = Some (build_uri (subject_id r), build_uri (object_id r))"
  by (simp add: jsonld_guard_def entity_uri_map_get both_truthy_def build_uri_nonempty)

lemma entity_by_id_stored:
  assumes "i \<in> stored_ids kg"
  shows "\<exists>e. entity_by_id kg i = Some e \<and> entity_id e = i \<and> e \<in> snd ` set (entities kg)"
proof -
  from assms have "\<exists>e \<in> set (map snd (entities kg)). entity_id e = i"
    by (force simp: stored_ids_def)
  then obtain e where "find (\<lambda>e. entity_id e = i) (map snd (entities kg)) = Some e"
    by (cases "find (\<lambda>e. entity_id e = i) (map snd (entities kg))") (auto simp: find_None_iff)
  moreover from this have "entity_id e = i \<and> e \<in> set (map snd (entities kg))"
    by (auto simp: find_Some_iff)
  ultimately show ?thesis by (auto simp: entity_by_id_def)
qed

lemma reachable_integrity:
  "reachable kg \<Longrightarrow>
     \<forall>r \<in> set (relations kg). subject_id r \<in> stored_ids kg \<and> object_id r \<in> stored_ids kg"
proof (induction rule: reachable.induct)
  case reachable_empty
  show ?case by (simp add: empty_graph_def)
next
  case (reachable_add_text kg w t)
  obtain err kg' where call: "add_text w kg t = (err, kg')"
    by (cases "add_text w kg t")
  from add_text_frame [OF call] obtain new_es new_rs where
    es: "entities kg' = entities kg @ new_es" and
    rs: "relations kg' = relations kg @ new_rs" and
    new: "\<forall>r \<in> set new_rs. subject_id r \<in> stored_ids kg' \<and> object_id r \<in> stored_ids kg'"
    by blast
  from es have "stored_ids kg \<subseteq> stored_ids kg'" by (auto simp: stored_ids_def)
  with reachable_add_text.IH rs new call show ?case by auto
qed

text \<open>
  C10.  In a graph reached from the empty one by calls of \<open>add_text\<close>, every stored
  relation has the identifiers of stored entities as subject and object.  So the guard of
  the linked-data export passes for it, with the two URIs; the guard of the query context
  passes, with entities of these identifiers; and the line the triple-text export writes
  for it names the local names of two stored entities.
\<close>

theorem reachable_relations_resolve:
  assumes "reachable kg" and "r \<in> set (relations kg)"
  shows "subject_id r \<in> stored_ids kg \<and> object_id r \<in> stored_ids kg
     \<and> jsonld_guard (entity_uri_map kg) r
          = Some (build_uri (subject_id r), build_uri (object_id r))
     \<and> (\<exists>s ob. query_guard kg r = Some (s, ob)
            \<and> entity_id s = subject_id r \<and> entity_id ob = object_id r
            \<and> context_relation_lines kg r = [name s @ '' '' @ predicate r @ '' '' @ name ob])
     \<and> (\<exists>s ob. s \<in> snd ` set (entities kg) \<and> ob \<in> snd ` set (entities kg)
            \<and> rdf_relation_line r
                = ''kg:'' @ sanitize_id (entity_id s) @ '' schema:'' @ predicate r
                    @ '' kg:'' @ sanitize_id (entity_id ob) @ '' .'')"
proof -
  from reachable_integrity [OF assms(1)] assms(2)
  have ids: "subject_id r \<in> stored_ids kg" "object_id r \<in> stored_ids kg" by auto
  from entity_by_id_stored [OF ids(1)] obtain s where
    s: "entity_by_id kg (subject_id r) = Some s" "entity_id s = subject_id r"
       "s \<in> snd ` set (entities kg)" by blast
  from entity_by_id_stored [OF ids(2)] obtain ob where
    ob: "entity_by_id kg (object_id r) = Some ob" "entity_id ob = object_id r"
       "ob \<in> snd ` set (entities kg)" by blast
  have q: "query_guard kg r = Some (s, ob)"
    using s(1) ob(1) by (simp add: query_guard_def)
  then have line: "context_relation_lines kg r = [name s @ '' '' @ predicate r @ '' '' @ name ob]"
    by (simp add: context_relation_lines_def)
  have rdf: "rdf_relation_line r
                = ''kg:'' @ sanitize_id (entity_id s) @ '' schema:'' @ predicate r
                    @ '' kg:'' @ sanitize_id (entity_id ob) @ '' .''"
    using s(2) ob(2) by (simp add: rdf_relation_line_def)
  from ids jsonld_guard_stored [OF ids] q line s ob rdf show ?thesis by blast
qed

theorem reachable_relations_resolve_witness:
  "reachable demo_graph \<and> works_for \<in> set (relations demo_graph)
   \<and> jsonld_guard (entity_uri_map demo_graph) works_for = Some (''urn:kg:id-0'', ''urn:kg:id-1'')
   \<and> query_guard demo_graph works_for = Some (alice, google)
   \<and> rdf_relation_line works_for = ''kg:id-0 schema:worksFor kg:id-1 .''"
proof -
  have "reachable (snd (add_text demo_env empty_graph demo_text))"
    by (rule reachable_add_text [OF reachable_empty])
  then have reach: "reachable demo_graph" by (simp add: demo_add_text)
  have mem: "works_for \<in> set (relations demo_graph)" by (simp add: demo_graph_def)
  have uris: "build_uri (subject_id works_for) = ''urn:kg:id-0''"
    "build_uri (object_id works_for) = ''urn:kg:id-1''" by code_simp+
  have q: "query_guard demo_graph works_for = Some (alice, google)" by code_simp
  have l: "rdf_relation_line works_for = ''kg:id-0 schema:worksFor kg:id-1 .''" by code_simp
  from reachable_relations_resolve [OF reach mem] uris q l reach mem show ?thesis by simp
qed

section \<open>The linked-data export returns\<close>

lemma dict_set_map_fst:
  "map fst (dict_set d k v) = (if k \<in> set (map fst d) then map fst d else map fst d @ [k])"
  by (induction d) force+

lemma dict_set_distinct: "distinct (map fst d) \<Longrightarrow> distinct (map fst (dict_set d k v))"
  by (simp add: dict_set_map_fst)

lemma dict_update_get_kept:
  "dict_get d k \<noteq> None \<Longrightarrow> dict_get (dict_update d ps) k \<noteq> None"
  unfolding dict_update_def
  by (induction ps arbitrary: d) (auto simp: dict_get_dict_set)

lemma dict_update_get_other:
  "k \<notin> fst ` set ps \<Longrightarrow> dict_get (dict_update d ps) k = dict_get d k"
  unfolding dict_update_def
  by (induction ps arbitrary: d) (auto simp: dict_get_dict_set)

lemma dict_update_distinct:
  "distinct (map fst d) \<Longrightarrow> distinct (map fst (dict_update d ps))"
  unfolding dict_update_def
  by (induction ps arbitrary: d) (auto simp: dict_set_distinct)

lemma make_node_stored:
  assumes "i \<in> stored_ids kg" and "entity_id e = i"
  shows "\<exists>node. make_node (entity_uri_map kg) e = Inr node
           \<and> dict_get node ''@id'' \<noteq> None
           \<and> distinct (map fst node)
           \<and> (\<not> dict_contains (properties e) ''@id''
                \<longrightarrow> dict_get node ''@id'' = Some (JStr (build_uri i)))"
proof -
  let ?base = "[(''@id'', JStr (build_uri i)), (''@type'', JStr (schema_type e)),
                (''name'', JStr (name e))]"
  have node: "make_node (entity_uri_map kg) e = Inr (dict_update ?base (properties e))"
    using assms by (simp add: make_node_def dict_getitem_def entity_uri_map_get)
  have base: "dict_get ?base ''@id'' = Some (JStr (build_uri i))" "distinct (map fst ?base)"
    by (simp_all add: dict_get_def)
  have "\<not> dict_contains (properties e) ''@id'' \<Longrightarrow> ''@id'' \<notin> fst ` set (properties e)"
    by (auto simp: dict_contains_def dict_get_def map_of_eq_None_iff)
  with node base dict_update_get_kept [of ?base "''@id''" "properties e"]
    dict_update_get_other [of "''@id''" "properties e" ?base]
    dict_update_distinct [of ?base "properties e"]
  show ?thesis by auto
qed

lemma make_nodes_stored:
  assumes "\<forall>(k, e) \<in> set es. entity_id e \<in> stored_ids kg"
  shows "\<exists>g. make_nodes (entity_uri_map kg) es = Inr g \<and> length g = length es
           \<and> list_all node_ok g
           \<and> ((\<forall>(k, e) \<in> set es. \<not> dict_contains (properties e) ''@id'')
                \<longrightarrow> map (\<lambda>node. dict_get node ''@id'') g
                      = map (\<lambda>(k, e). Some (JStr (build_uri (entity_id e)))) es)"
  using assms
proof (induction es)
  case Nil
  show ?case by simp
next
  case (Cons a es)
  obtain k e where a: "a = (k, e)" by (cases a)
  from Cons.prems a have "entity_id e \<in> stored_ids kg" by simp
  from make_node_stored [OF this refl] obtain node where
    node: "make_node (entity_uri_map kg) e = Inr node" "node_ok node"
      "\<not> dict_contains (properties e) ''@id''
         \<longrightarrow> dict_get node ''@id'' = Some (JStr (build_uri (entity_id e)))"
    by (auto simp: node_ok_def)
  from Cons obtain g where
    g: "make_nodes (entity_uri_map kg) es = Inr g" "length g = length es" "list_all node_ok g"
      "(\<forall>(k, e) \<in> set es. \<not> dict_contains (properties e) ''@id'')
         \<longrightarrow> map (\<lambda>node. dict_get node ''@id'') g
               = map (\<lambda>(k, e). Some (JStr (build_uri (entity_id e)))) es"
    by auto
  from a node g show ?case by auto
qed

lemma dict_set_node_ok: "node_ok node \<Longrightarrow> node_ok (dict_set node p v)"
  by (auto simp: node_ok_def dict_get_dict_set dict_set_distinct)

lemma attach_returns:
  "list_all node_ok g \<Longrightarrow>
     \<exists>g'. attach g su p v = Inr g' \<and> length g' = length g \<and> list_all node_ok g'"
proof (induction g)
  case Nil
  show ?case by simp
next
  case (Cons node g)
  from Cons.prems obtain i where i: "dict_getitem node ''@id'' = Inr i"
    by (auto simp: node_ok_def dict_getitem_def)
  from Cons obtain g' where "attach g su p v = Inr g'" "length g' = length g" "list_all node_ok g'"
    by auto
  with i Cons.prems show ?case by (auto simp: dict_set_node_ok)
qed

lemma attach_relations_returns:
  "list_all node_ok g \<Longrightarrow>
     \<exists>g'. attach_relations m g rs = Inr g' \<and> length g' = length g \<and> list_all node_ok g'"
proof (induction rs arbitrary: g)
  case Nil
  then show ?case by simp
next
  case (Cons r rs)
  show ?case
  proof (cases "jsonld_guard m r")
    case None
    with Cons show ?thesis by simp
  next
    case (Some uris)
    obtain su ou where uris: "uris = (su, ou)" by (cases uris)
    from attach_returns [OF Cons.prems, of su "predicate r" "JObj [(''@id'', JStr ou)]"]
    obtain g1 where g1: "attach g su (predicate r) (JObj [(''@id'', JStr ou)]) = Inr g1"
      "length g1 = length g" "list_all node_ok g1" by blast
    from Cons.IH [OF g1(3)] obtain g' where
      "attach_relations m g1 rs = Inr g'" "length g' = length g1" "list_all node_ok g'" by blast
    with Some uris g1 show ?thesis by simp
  qed
qed

lemma entities_stored: "\<forall>(k, e) \<in> set (entities kg). entity_id e \<in> stored_ids kg"
  by (force simp: stored_ids_def)

lemma jsonld_graph_returns:
  "\<exists>g. jsonld_graph kg = Inr g \<and> length g = length (entities kg) \<and> list_all node_ok g"
proof -
  from make_nodes_stored [OF entities_stored] obtain g0 where
    g0: "make_nodes (entity_uri_map kg) (entities kg) = Inr g0"
      "length g0 = length (entities kg)" "list_all node_ok g0" by blast
  from attach_relations_returns [OF g0(3), of "entity_uri_map kg" "relations kg"] g0
  show ?thesis by (auto simp: jsonld_graph_def)
qed

section \<open>The lines of the triple-text export\<close>

lemma lines_from_one_line: "one_line s \<Longrightarrow> lines_from cur s = [rev cur @ s]"
  by (induction s arbitrary: cur) (auto simp: one_line_def)

lemma lines_from_break:
  "one_line s \<Longrightarrow> lines_from cur (s @ newline @ t) = (rev cur @ s) # lines_from [] t"
  by (induction s arbitrary: cur) (auto simp: one_line_def newline_def)

lemma text_lines_join:
  "ls \<noteq> [] \<Longrightarrow> list_all one_line ls \<Longrightarrow> text_lines (py_join newline ls) = ls"
proof (induction newline ls rule: py_join.induct)
  case 1
  then show ?case by simp
next
  case (2 x)
  then show ?case by (simp add: text_lines_def lines_from_one_line)
next
  case (3 x y ys)
  then show ?case by (simp add: text_lines_def lines_from_break)
qed

lemma one_line_simps:
  "one_line []" "one_line (c # s) \<longleftrightarrow> c \<noteq> CHR 0x0A \<and> one_line s"
  "one_line (a @ b) \<longleftrightarrow> one_line a \<and> one_line b"
  by (auto simp: one_line_def)

lemma one_line_sanitize_id: "one_line (sanitize_id s)"
proof -
  have "\<not> id_char (CHR 0x0A)" by (simp add: id_char_def in_range_def)
  then show ?thesis using sanitize_id_chars [of "CHR 0x0A" s] by (auto simp: one_line_def)
qed

lemma rdf_entity_lines_one_line:
  "one_line (name e) \<Longrightarrow> one_line (schema_type e) \<Longrightarrow> list_all one_line (rdf_entity_lines e)"
  by (simp add: rdf_entity_lines_def one_line_simps one_line_sanitize_id dquote_def)

lemma rdf_relation_line_one_line:
  "one_line (predicate r) \<Longrightarrow> one_line (rdf_relation_line r)"
  by (simp add: rdf_relation_line_def one_line_simps one_line_sanitize_id)

lemma rdf_header_one_line: "list_all one_line rdf_header"
  by (simp add: rdf_header_def URI_PREFIX_def one_line_simps)

lemma rdf_entity_lines_count:
  "length (filter (\<lambda>l. l \<noteq> []) (concat (map (\<lambda>(key, entity). rdf_entity_lines entity) es)))
     = 2 * length es"
  by (induction es) (auto simp: rdf_entity_lines_def)

lemma rdf_relation_lines_count:
  "length (filter ((\<lambda>l. l \<noteq> []) \<circ> rdf_relation_line) rs) = length rs"
  by (induction rs) (auto simp: rdf_relation_line_def)

lemma rdf_lines_count:
  assumes "\<forall>(k, e) \<in> set (entities kg). one_line (name e) \<and> one_line (schema_type e)"
    and "\<forall>r \<in> set (relations kg). one_line (predicate r)"
  shows "rdf_statement_count (to_rdf kg) = 2 * length (entities kg) + length (relations kg)"
proof -
  have ents: "list_all one_line (concat (map (\<lambda>(key, entity). rdf_entity_lines entity) (entities kg)))"
    using assms(1) by (induction "entities kg" arbitrary: kg)
      (auto simp: list_all_iff dest!: rdf_entity_lines_one_line [unfolded list_all_iff])
  have rels: "list_all one_line (map rdf_relation_line (relations kg))"
    using assms(2) by (auto simp: list_all_iff rdf_relation_line_one_line)
  have all: "list_all one_line (rdf_lines kg)"
    using rdf_header_one_line ents rels by (simp add: rdf_lines_def)
  have "rdf_lines kg \<noteq> []" by (simp add: rdf_lines_def rdf_header_def)
  with all have "text_lines (to_rdf kg) = rdf_lines kg"
    by (simp add: to_rdf_def text_lines_join)
  then show ?thesis
    by (simp add: rdf_statement_count_def rdf_lines_def rdf_header_def
        rdf_entity_lines_count rdf_relation_lines_count)
qed

text \<open>
  C8, as amended.  For every graph the linked-data export returns a document whose
  \<open>@graph\<close> array has one node per stored entity; and when no entity name, no entity type
  and no predicate contains a line feed, the triple-text export has
  \<open>2 * |entities| + |relations|\<close> non-empty lines after its two header lines.
\<close>

theorem export_counts:
  "(\<exists>g. to_jsonld kg = Inr (JObj [(''@context'', JStr ''https://schema.org''),
                                  (''@graph'', JArr g)])
        \<and> length g = length (entities kg))
   \<and> ((\<forall>(k, e) \<in> set (entities kg). one_line (name e) \<and> one_line (schema_type e))
        \<and> (\<forall>r \<in> set (relations kg). one_line (predicate r))
      \<longrightarrow> rdf_statement_count (to_rdf kg) = 2 * length (entities kg) + length (relations kg))"
proof -
  from jsonld_graph_returns [of kg] obtain g where
    "jsonld_graph kg = Inr g" "length g = length (entities kg)" by blast
  then have "to_jsonld kg = Inr (JObj [(''@context'', JStr ''https://schema.org''),
                                     (''@graph'', JArr (map JObj g))])
        \<and> length (map JObj g) = length (entities kg)"
    by (simp add: to_jsonld_def)
  then have doc: "\<exists>g. to_jsonld kg = Inr (JObj [(''@context'', JStr ''https://schema.org''),
                                  (''@graph'', JArr g)])
        \<and> length g = length (entities kg)" by blast
  from doc rdf_lines_count [of kg] show ?thesis by blast
qed

theorem export_counts_witness:
  "one_line (name alice) \<and> one_line (schema_type alice)
   \<and> one_line (name google) \<and> one_line (schema_type google)
   \<and> one_line (predicate works_for)
   \<and> rdf_statement_count (to_rdf demo_graph) = 5"
proof -
  have es: "\<forall>(k, e) \<in> set (entities demo_graph). one_line (name e) \<and> one_line (schema_type e)"
    by (simp add: demo_graph_def alice_def google_def one_line_simps)
  have rs: "\<forall>r \<in> set (relations demo_graph). one_line (predicate r)"
    by (simp add: demo_graph_def works_for_def one_line_simps)
  have "2 * length (entities demo_graph) + length (relations demo_graph) = 5"
    by (simp add: demo_graph_def)
  with export_counts [of demo_graph] es rs
  have "rdf_statement_count (to_rdf demo_graph) = 5" by simp
  then show ?thesis
    by (simp add: alice_def google_def works_for_def one_line_simps)
qed

text \<open>
  The count as stated fails: a name that spans two lines is written as it is, so the one
  entity of this graph gives three non-empty lines, not two.
\<close>

theorem two_line_name_breaks_count:
  "fst (add_text two_line_env empty_graph ''Ann Lee.'') = None
   \<and> get_stats (snd (add_text two_line_env empty_graph ''Ann Lee.'')) = (1, 0, 1)
   \<and> rdf_statement_count (to_rdf (snd (add_text two_line_env empty_graph ''Ann Lee.''))) = 3"
  by code_simp

section \<open>Which reference a node keeps\<close>

lemma map_zip_keep:
  "length us = length g \<Longrightarrow> su \<notin> set us \<Longrightarrow>
     map (\<lambda>(u, node). if u = su then f node else node) (zip us g) = g"
  by (induction us g rule: list_induct2) auto

lemma attach_by_uri:
  assumes "distinct us"
    and "map (\<lambda>node. dict_get node ''@id'') g = map (\<lambda>u. Some (JStr u)) us"
  shows "attach g su p v
           = Inr (map (\<lambda>(u, node). if u = su then dict_set node p v else node) (zip us g))"
  using assms
proof (induction g arbitrary: us)
  case Nil
  then show ?case by simp
next
  case (Cons node g)
  from Cons.prems(2) obtain u us' where us: "us = u # us'" by (cases us) auto
  with Cons.prems have id: "dict_get node ''@id'' = Some (JStr u)"
    and rest: "map (\<lambda>node. dict_get node ''@id'') g = map (\<lambda>u. Some (JStr u)) us'"
    and dist: "distinct us'" "u \<notin> set us'" by auto
  from rest have len: "length us' = length g" by (metis length_map)
  show ?case
  proof (cases "u = su")
    case True
    with dist(2) len have "map (\<lambda>(u, node). if u = su then dict_set node p v else node) (zip us' g) = g"
      by (simp add: map_zip_keep)
    with True id us show ?thesis by (simp add: dict_getitem_def)
  next
    case False
    with id us Cons.IH [OF dist(1) rest] show ?thesis by (simp add: dict_getitem_def)
  qed
qed

lemma zip_map_zip:
  "length us = length g \<Longrightarrow>
     zip us (map (\<lambda>(u, node). f u node) (zip us g)) = map (\<lambda>(u, node). (u, f u node)) (zip us g)"
  by (induction us g rule: list_induct2) auto

lemma ids_map_zip:
  "length us = length g \<Longrightarrow> (\<And>u node. dict_get (f u node) ''@id'' = dict_get node ''@id'') \<Longrightarrow>
     map (\<lambda>node. dict_get node ''@id'') (map (\<lambda>(u, node). f u node) (zip us g))
       = map (\<lambda>node. dict_get node ''@id'') g"
  by (induction us g rule: list_induct2) auto

lemma write_refs_Cons:
  "write_refs node (r # rs)
     = write_refs (dict_set node (predicate r) (JObj [(''@id'', JStr (build_uri (object_id r)))])) rs"
  by (simp add: write_refs_def)

lemma attach_relations_by_uri:
  assumes "distinct us"
    and "map (\<lambda>node. dict_get node ''@id'') g = map (\<lambda>u. Some (JStr u)) us"
    and "\<forall>r \<in> set rs. predicate r \<noteq> ''@id''
           \<and> jsonld_guard m r = Some (build_uri (subject_id r), build_uri (object_id r))"
  shows "attach_relations m g rs
           = Inr (map (\<lambda>(u, node). write_refs node (filter (\<lambda>r. build_uri (subject_id r) = u) rs))
                    (zip us g))"
  using assms(2,3)
proof (induction rs arbitrary: g)
  case Nil
  from Nil.prems(1) have "length us = length g" by (metis length_map)
  then have "map (\<lambda>(u, node). node) (zip us g) = g"
    by (induction us g rule: list_induct2) auto
  then show ?case by (simp add: write_refs_def)
next
  case (Cons r rs)
  let ?su = "build_uri (subject_id r)"
  let ?v = "JObj [(''@id'', JStr (build_uri (object_id r)))]"
  let ?f = "\<lambda>u node. if u = ?su then dict_set node (predicate r) ?v else node"
  let ?g1 = "map (\<lambda>(u, node). ?f u node) (zip us g)"
  from Cons.prems(1) have len: "length us = length g" by (metis length_map)
  from Cons.prems(2) have p: "predicate r \<noteq> ''@id''"
    and guard: "jsonld_guard m r = Some (?su, build_uri (object_id r))" by auto
  have step: "attach g ?su (predicate r) ?v = Inr ?g1"
    by (rule attach_by_uri [OF assms(1) Cons.prems(1)])
  have keep: "dict_get (?f u node) ''@id'' = dict_get node ''@id''" for u node
    using p by (simp add: dict_get_dict_set)
  have ids1: "map (\<lambda>node. dict_get node ''@id'') ?g1 = map (\<lambda>u. Some (JStr u)) us"
    using ids_map_zip [OF len, of ?f] keep Cons.prems(1) by simp
  from Cons.prems(2) have rest: "\<forall>r \<in> set rs. predicate r \<noteq> ''@id''
           \<and> jsonld_guard m r = Some (build_uri (subject_id r), build_uri (object_id r))"
    by simp
  have "attach_relations m ?g1 rs
           = Inr (map (\<lambda>(u, node). write_refs node (filter (\<lambda>r. build_uri (subject_id r) = u) rs))
                    (zip us ?g1))"
    by (rule Cons.IH [OF ids1 rest])
  also have "zip us ?g1 = map (\<lambda>(u, node). (u, ?f u node)) (zip us g)"
    by (rule zip_map_zip [OF len])
  also have "map (\<lambda>(u, node). write_refs node (filter (\<lambda>r. build_uri (subject_id r) = u) rs))
                 (map (\<lambda>(u, node). (u, ?f u node)) (zip us g))
      = map (\<lambda>(u, node). write_refs node (filter (\<lambda>r. build_uri (subject_id r) = u) (r # rs)))
                 (zip us g)"
    by (auto simp: write_refs_Cons)
  finally show ?case using guard step by simp
qed

lemma write_refs_snoc:
  "write_refs node (rs @ [r])
     = dict_set (write_refs node rs) (predicate r) (JObj [(''@id'', JStr (build_uri (object_id r)))])"
  by (simp add: write_refs_def)

lemma write_refs_get:
  "dict_get (write_refs node rs) p =
     (if filter (\<lambda>r. predicate r = p) rs = [] then dict_get node p
      else Some (JObj [(''@id'', JStr (build_uri (object_id (last (filter (\<lambda>r. predicate r = p) rs)))))]))"
proof (induction rs rule: rev_induct)
  case Nil
  show ?case by (simp add: write_refs_def)
next
  case (snoc r rs)
  then show ?case by (simp add: write_refs_snoc dict_get_dict_set)
qed

lemma write_refs_distinct:
  "distinct (map fst node) \<Longrightarrow> distinct (map fst (write_refs node rs))"
  by (induction rs rule: rev_induct) (simp_all add: write_refs_def dict_set_distinct)

lemma dict_single_entry:
  "distinct (map fst d) \<Longrightarrow> dict_get d k = Some v \<Longrightarrow> filter (\<lambda>(k', v'). k' = k) d = [(k, v)]"
proof (induction d)
  case Nil
  then show ?case by (simp add: dict_get_def)
next
  case (Cons a d)
  obtain k' v' where a: "a = (k', v')" by (cases a)
  show ?case
  proof (cases "k' = k")
    case True
    with Cons.prems a have "k \<notin> fst ` set d" "v' = v" by (auto simp: dict_get_def)
    then have "filter (\<lambda>(k', v'). k' = k) d = []"
      by (force simp: filter_empty_conv)
    with True a \<open>v' = v\<close> show ?thesis by simp
  next
    case False
    with Cons a show ?thesis by (simp add: dict_get_def)
  qed
qed

lemma stored_id_index:
  "a \<in> stored_ids kg \<Longrightarrow> \<exists>j < length (entities kg). entity_id (snd (entities kg ! j)) = a"
  by (force simp: stored_ids_def in_set_conv_nth)

text \<open>
  C7, as amended.  Take a graph in which every relation refers to stored entities (as in
  every reachable graph), the URIs of the stored entities are pairwise distinct, no entity
  has a property named \<open>@id\<close> and no relation has the predicate \<open>@id\<close>.  When one or more
  stored relations have the entity at position \<open>i\<close> as subject and \<open>p\<close> as predicate, the
  node at position \<open>i\<close> of the export has exactly one entry under \<open>p\<close>: the reference to
  the object URI of the latest of these relations.
\<close>

theorem last_relation_wins:
  assumes noprop: "\<forall>(k, e) \<in> set (entities kg). \<not> dict_contains (properties e) ''@id''"
    and dist: "distinct (map (\<lambda>(k, e). build_uri (entity_id e)) (entities kg))"
    and rels: "\<forall>r \<in> set (relations kg). predicate r \<noteq> ''@id''
                 \<and> subject_id r \<in> stored_ids kg \<and> object_id r \<in> stored_ids kg"
    and i: "i < length (entities kg)" "entities kg ! i = (k, e)"
    and same: "same = filter (\<lambda>r. subject_id r = entity_id e \<and> predicate r = p) (relations kg)"
      "same \<noteq> []"
  shows "\<exists>g. jsonld_graph kg = Inr g \<and> length g = length (entities kg)
           \<and> filter (\<lambda>(k', v). k' = p) (g ! i)
               = [(p, JObj [(''@id'', JStr (build_uri (object_id (last same))))])]"
proof -
  let ?m = "entity_uri_map kg"
  let ?es = "entities kg"
  let ?rs = "relations kg"
  let ?us = "map (\<lambda>(k, e). build_uri (entity_id e)) ?es"
  from make_nodes_stored [OF entities_stored, of kg] noprop obtain g0 where
    g0: "make_nodes ?m ?es = Inr g0" "length g0 = length ?es" "list_all node_ok g0"
      "map (\<lambda>node. dict_get node ''@id'') g0
         = map (\<lambda>(k, e). Some (JStr (build_uri (entity_id e)))) ?es"
    by blast
  have ids0: "map (\<lambda>node. dict_get node ''@id'') g0 = map (\<lambda>u. Some (JStr u)) ?us"
    using g0(4) by (simp add: comp_def case_prod_unfold)
  have guards: "\<forall>r \<in> set ?rs. predicate r \<noteq> ''@id''
      \<and> jsonld_guard ?m r = Some (build_uri (subject_id r), build_uri (object_id r))"
    using rels jsonld_guard_stored by blast
  let ?g = "map (\<lambda>(u, node). write_refs node (filter (\<lambda>r. build_uri (subject_id r) = u) ?rs))
              (zip ?us g0)"
  have loop: "attach_relations ?m g0 ?rs = Inr ?g"
    by (rule attach_relations_by_uri [OF dist ids0 guards])
  have graph: "jsonld_graph kg = Inr ?g"
    using g0(1) loop by (simp add: jsonld_graph_def)
  have len: "length ?g = length ?es" using g0(2) by simp
  have ui: "?us ! i = build_uri (entity_id e)" using i by simp
  have node: "?g ! i = write_refs (g0 ! i) (filter (\<lambda>r. build_uri (subject_id r) = build_uri (entity_id e)) ?rs)"
    using i(1) g0(2) ui by simp
  have subj: "build_uri (subject_id r) = build_uri (entity_id e) \<longleftrightarrow> subject_id r = entity_id e"
    if r: "r \<in> set ?rs" for r
  proof
    assume eq: "build_uri (subject_id r) = build_uri (entity_id e)"
    from rels r have "subject_id r \<in> stored_ids kg" by blast
    from stored_id_index [OF this] obtain j where
      j: "j < length ?es" "entity_id (snd (?es ! j)) = subject_id r" by blast
    then have "?us ! j = build_uri (subject_id r)" by (simp add: case_prod_unfold)
    with eq ui have "?us ! j = ?us ! i" by simp
    moreover have "j < length ?us" "i < length ?us" using j(1) i(1) by simp_all
    ultimately have "j = i" using dist nth_eq_iff_index_eq by blast
    with j(2) i(2) show "subject_id r = entity_id e" by simp
  next
    assume "subject_id r = entity_id e"
    then show "build_uri (subject_id r) = build_uri (entity_id e)" by simp
  qed
  have "filter (\<lambda>r. predicate r = p) (filter (\<lambda>r. build_uri (subject_id r) = build_uri (entity_id e)) ?rs)
      = filter (\<lambda>r. subject_id r = entity_id e \<and> predicate r = p) ?rs"
  proof -
    have "filter (\<lambda>r. predicate r = p) (filter (\<lambda>r. build_uri (subject_id r) = build_uri (entity_id e)) ?rs)
      = filter (\<lambda>r. build_uri (subject_id r) = build_uri (entity_id e) \<and> predicate r = p) ?rs"
      by simp
    also have "\<dots> = filter (\<lambda>r. subject_id r = entity_id e \<and> predicate r = p) ?rs"
      by (rule filter_cong) (auto simp: subj)
    finally show ?thesis .
  qed
  then have sel: "filter (\<lambda>r. predicate r = p) (filter (\<lambda>r. build_uri (subject_id r) = build_uri (entity_id e)) ?rs)
      = same" using same(1) by simp
  have get: "dict_get (?g ! i) p = Some (JObj [(''@id'', JStr (build_uri (object_id (last same))))])"
    using same(2) by (simp only: node write_refs_get sel) simp
  from g0(3) i(1) g0(2) have "node_ok (g0 ! i)" by (simp add: list_all_length)
  then have "distinct (map fst (?g ! i))"
    by (simp only: node) (simp add: node_ok_def write_refs_distinct)
  from dict_single_entry [OF this get] graph len show ?thesis by blast
qed

theorem last_relation_wins_witness:
  "\<exists>g. jsonld_graph two_jobs = Inr g \<and> length g = 3
        \<and> filter (\<lambda>(k', v). k' = ''worksFor'') (g ! 0)
            = [(''worksFor'', JObj [(''@id'', JStr ''urn:kg:id-2'')])]"
proof -
  have noprop: "\<forall>(k, e) \<in> set (entities two_jobs). \<not> dict_contains (properties e) ''@id''"
    by (simp add: two_jobs_def alice_def google_def acme_def dict_contains_def dict_get_def)
  have dist: "distinct (map (\<lambda>(k, e). build_uri (entity_id e)) (entities two_jobs))"
    by code_simp
  have ids: "stored_ids two_jobs = {''id-0'', ''id-1'', ''id-2''}"
    by (auto simp: stored_ids_def two_jobs_def alice_def google_def acme_def)
  have rels: "\<forall>r \<in> set (relations two_jobs). predicate r \<noteq> ''@id''
                 \<and> subject_id r \<in> stored_ids two_jobs \<and> object_id r \<in> stored_ids two_jobs"
    by (simp add: ids) (simp add: two_jobs_def works_for_def works_for_acme_def)
  have i: "0 < length (entities two_jobs)" "entities two_jobs ! 0 = (''Person:alice'', alice)"
    by (simp_all add: two_jobs_def)
  have same: "[works_for, works_for_acme]
      = filter (\<lambda>r. subject_id r = entity_id alice \<and> predicate r = ''worksFor'') (relations two_jobs)"
    "[works_for, works_for_acme] \<noteq> []"
    by (simp_all add: two_jobs_def works_for_def works_for_acme_def alice_def)
  have uri: "build_uri (object_id (last [works_for, works_for_acme])) = ''urn:kg:id-2''"
    by code_simp
  have n: "length (entities two_jobs) = 3" by (simp add: two_jobs_def)
  from last_relation_wins [OF noprop dist rels i same] uri n show ?thesis by auto
qed

text \<open>
  The claim as stated fails when the shared predicate is \<open>@id\<close>: the first relation puts
  its reference in the place of the node's \<open>@id\<close>, the second then finds no node with the
  subject URI, and the node of Alice keeps the reference to Google, the earlier object.
\<close>

theorem at_id_predicate_first_wins:
  "map (\<lambda>r. (subject_id r, predicate r, object_id r))
       (relations (snd (add_text at_id_env empty_graph ''Alice, Google, Acme.'')))
     = [(''id-0'', ''@id'', ''id-1''), (''id-0'', ''@id'', ''id-2'')]
   \<and> to_jsonld (snd (add_text at_id_env empty_graph ''Alice, Google, Acme.''))
     = Inr (JObj
         [(''@context'', JStr ''https://schema.org''),
          (''@graph'', JArr
            [JObj [(''@id'', JObj [(''@id'', JStr ''urn:kg:id-1'')]),
                   (''@type'', JStr ''Person''), (''name'', JStr ''Alice'')],
             JObj [(''@id'', JStr ''urn:kg:id-1''),
                   (''@type'', JStr ''Organization''), (''name'', JStr ''Google'')],
             JObj [(''@id'', JStr ''urn:kg:id-2''),
                   (''@type'', JStr ''Organization''), (''name'', JStr ''Acme'')]])])"
  by code_simp

section \<open>The consumers write to fresh objects only\<close>

lemma demo_eval: "graph_of demo_heap demo_objects = demo_graph"
  by code_simp

lemma make_nodes_at_fresh:
  "make_nodes_at m h es = Inr (as, h') \<Longrightarrow>
     (\<exists>new. h' = h @ new) \<and> as = [length h ..< length h']"
proof (induction es arbitrary: h as h')
  case Nil
  then show ?case by simp
next
  case (Cons a es)
  obtain key eo where a: "a = (key, eo)" by (cases a)
  from Cons.prems a obtain node as1 where
    first: "make_node_at m h eo = Inr (length h, h @ [node])"
    and rest: "make_nodes_at m (h @ [node]) es = Inr (as1, h')"
    and as: "as = length h # as1"
    by (auto simp: make_node_at_def split: sum.splits)
  from Cons.IH [OF rest] obtain new where
    new: "h' = (h @ [node]) @ new" and as1: "as1 = [length (h @ [node]) ..< length h']" by blast
  from new have ext: "h' = h @ (node # new)" by simp
  then have "length h < length h'" by simp
  then have "[length h ..< length h'] = length h # [Suc (length h) ..< length h']"
    by (rule upt_conv_Cons)
  moreover from as as1 have "as = length h # [Suc (length h) ..< length h']" by simp
  ultimately have "as = [length h ..< length h']" by simp
  with ext show ?case by blast
qed

lemma attach_at_frame:
  "attach_at h as su p v = Inr h' \<Longrightarrow> \<forall>a \<in> set as. n \<le> a \<Longrightarrow>
     length h' = length h \<and> take n h' = take n h"
proof (induction as)
  case Nil
  then show ?case by simp
next
  case (Cons a as)
  then show ?case by (auto split: sum.splits if_splits)
qed

lemma attach_relations_at_frame:
  "attach_relations_at m h as rs = Inr h' \<Longrightarrow> \<forall>a \<in> set as. n \<le> a \<Longrightarrow>
     length h' = length h \<and> take n h' = take n h"
proof (induction rs arbitrary: h)
  case Nil
  then show ?case by simp
next
  case (Cons r rs)
  show ?case
  proof (cases "jsonld_guard m r")
    case None
    with Cons show ?thesis by simp
  next
    case (Some uris)
    obtain su ou where uris: "uris = (su, ou)" by (cases uris)
    from Cons.prems(1) Some uris obtain h1 where
      h1: "attach_at h as su (predicate r) (JObj [(''@id'', JStr ou)]) = Inr h1"
      and rest: "attach_relations_at m h1 as rs = Inr h'"
      by (auto split: sum.splits)
    from attach_at_frame [OF h1 Cons.prems(2)] Cons.IH [OF rest Cons.prems(2)]
    show ?thesis by simp
  qed
qed

lemma jsonld_graph_at_frame:
  assumes "jsonld_graph_at h og = Inr (as, h')"
  shows "length h \<le> length h' \<and> take (length h) h' = h"
proof -
  let ?m = "entity_uri_map (graph_of h og)"
  from assms obtain h1 where
    nodes: "make_nodes_at ?m h (obj_entities og) = Inr (as, h1)"
    and loop: "attach_relations_at ?m h1 as (obj_relations og) = Inr h'"
    by (auto simp: jsonld_graph_at_def Let_def split: sum.splits)
  from make_nodes_at_fresh [OF nodes] obtain new where
    h1: "h1 = h @ new" and as: "as = [length h ..< length h1]" by blast
  from as have "\<forall>a \<in> set as. length h \<le> a" by simp
  from attach_relations_at_frame [OF loop this] h1 show ?thesis by simp
qed

lemma graph_of_frame:
  assumes "refs_allocated h og" and "length h \<le> length h'" and "take (length h) h' = h"
  shows "graph_of h' og = graph_of h og"
proof -
  have "heap_get h' a = heap_get h a" if "a < length h" for a
  proof -
    from that assms(2) have "h' ! a = take (length h) h' ! a" by simp
    with assms(3) that assms(2) show ?thesis by (simp add: heap_get_def)
  qed
  with assms(1) have "entity_of h' eo = entity_of h eo" if "(key, eo) \<in> set (obj_entities og)" for key eo
    using that by (auto simp: refs_allocated_def entity_of_def)
  then show ?thesis by (auto simp: graph_of_def)
qed

section \<open>The export on the store is the export on values\<close>

lemma objects_of_graph:
  "refs_allocated (heap_of kg) (objects_of kg) \<and> graph_of (heap_of kg) (objects_of kg) = kg"
proof -
  let ?es = "entities kg"
  have alloc: "refs_allocated (heap_of kg) (objects_of kg)"
    by (auto simp: refs_allocated_def objects_of_def heap_of_def in_set_enumerate_eq)
  have "map (\<lambda>(key, eo). (key, entity_of (heap_of kg) eo)) (obj_entities (objects_of kg)) = ?es"
  proof (rule nth_equalityI)
    show "length (map (\<lambda>(key, eo). (key, entity_of (heap_of kg) eo)) (obj_entities (objects_of kg)))
        = length ?es"
      by (simp add: objects_of_def)
  next
    fix i
    assume "i < length (map (\<lambda>(key, eo). (key, entity_of (heap_of kg) eo)) (obj_entities (objects_of kg)))"
    then have i: "i < length ?es" by (simp add: objects_of_def)
    obtain key entity where at: "?es ! i = (key, entity)" by (cases "?es ! i")
    from i at have "heap_get (heap_of kg) i = properties entity"
      by (simp add: heap_get_def heap_of_def)
    with i at show "map (\<lambda>(key, eo). (key, entity_of (heap_of kg) eo)) (obj_entities (objects_of kg)) ! i
        = ?es ! i"
      by (simp add: objects_of_def nth_enumerate_eq entity_of_def)
  qed
  then have "graph_of (heap_of kg) (objects_of kg) = kg"
    by (simp add: graph_of_def objects_of_def)
  with alloc show ?thesis by simp
qed

lemma entity_of_append:
  "obj_properties eo < length h \<Longrightarrow> entity_of (h @ new) eo = entity_of h eo"
  by (simp add: entity_of_def heap_get_def nth_append)

lemma make_nodes_at_value:
  assumes "\<forall>(key, eo) \<in> set es. obj_properties eo < length h"
  shows "make_nodes_at m h es =
     (case make_nodes m (map (\<lambda>(key, eo). (key, entity_of h eo)) es) of
        Inl e \<Rightarrow> Inl e
      | Inr g \<Rightarrow> Inr ([length h ..< length h + length g], h @ g))"
  using assms
proof (induction es arbitrary: h)
  case Nil
  show ?case by simp
next
  case (Cons a es)
  obtain key eo where a: "a = (key, eo)" by (cases a)
  show ?case
  proof (cases "dict_getitem m (obj_entity_id eo)")
    case (Inl e)
    with a show ?thesis by (simp add: make_node_at_def make_node_def entity_of_def)
  next
    case (Inr uri)
    let ?node = "dict_update [(''@id'', JStr uri), (''@type'', JStr (obj_schema_type eo)),
                              (''name'', JStr (obj_name eo))] (heap_get h (obj_properties eo))"
    have at: "make_node_at m h eo = Inr (length h, h @ [?node])"
      using Inr by (simp add: make_node_at_def)
    have val: "make_node m (entity_of h eo) = Inr ?node"
      using Inr by (simp add: make_node_def entity_of_def)
    from Cons.prems have refs: "\<forall>(key, eo) \<in> set es. obj_properties eo < length (h @ [?node])"
      by auto
    have same: "map (\<lambda>(key, eo). (key, entity_of (h @ [?node]) eo)) es
        = map (\<lambda>(key, eo). (key, entity_of h eo)) es"
      using Cons.prems by (auto simp: entity_of_append)
    show ?thesis
    proof (cases "make_nodes m (map (\<lambda>(key, eo). (key, entity_of h eo)) es)")
      case (Inl e)
      with a at val Cons.IH [OF refs] same show ?thesis by simp
    next
      case g: (Inr g)
      have "[length h ..< Suc (length h + length g)] = length h # [Suc (length h) ..< Suc (length h + length g)]"
        by (rule upt_conv_Cons) simp
      with a at val Cons.IH [OF refs] same g show ?thesis by simp
    qed
  qed
qed

lemma attach_length: "attach g su p v = Inr g' \<Longrightarrow> length g' = length g"
  by (induction g arbitrary: g') (auto split: sum.splits if_splits)

lemma attach_at_value:
  "attach_at (h0 @ g1 @ g2)
       [length h0 + length g1 ..< length h0 + length g1 + length g2] su p v =
     (case attach g2 su p v of
        Inl e \<Rightarrow> Inl e
      | Inr g2' \<Rightarrow> Inr (h0 @ g1 @ g2'))"
proof (induction g2 arbitrary: g1)
  case Nil
  show ?case by simp
next
  case (Cons node g2)
  let ?a = "length h0 + length g1"
  have upt: "[?a ..< ?a + length (node # g2)] = ?a # [Suc ?a ..< Suc ?a + length g2]"
    using upt_conv_Cons [of ?a "?a + length (node # g2)"] by simp
  have get: "heap_get (h0 @ g1 @ node # g2) ?a = node"
    by (simp add: heap_get_def nth_append)
  have upd: "(h0 @ g1 @ node # g2)[?a := x] = h0 @ g1 @ x # g2" for x
    by (simp add: list_update_append)
  from Cons.IH [of "g1 @ [node]"]
  have rest: "attach_at (h0 @ g1 @ node # g2) [Suc ?a ..< Suc ?a + length g2] su p v =
     (case attach g2 su p v of Inl e \<Rightarrow> Inl e | Inr g2' \<Rightarrow> Inr (h0 @ g1 @ node # g2'))"
    by (simp split: sum.splits)
  show ?case
    by (simp only: upt attach_at.simps attach.simps get upd rest)
       (simp split: sum.splits)
qed

lemma attach_relations_at_value:
  "attach_relations_at m (h0 @ g) [length h0 ..< length h0 + length g] rs =
     (case attach_relations m g rs of
        Inl e \<Rightarrow> Inl e
      | Inr g' \<Rightarrow> Inr (h0 @ g'))"
proof (induction rs arbitrary: g)
  case Nil
  show ?case by simp
next
  case (Cons r rs)
  show ?case
  proof (cases "jsonld_guard m r")
    case None
    with Cons show ?thesis by simp
  next
    case (Some uris)
    obtain su ou where uris: "uris = (su, ou)" by (cases uris)
    let ?v = "JObj [(''@id'', JStr ou)]"
    have step: "attach_at (h0 @ g) [length h0 ..< length h0 + length g] su (predicate r) ?v =
       (case attach g su (predicate r) ?v of Inl e \<Rightarrow> Inl e | Inr g' \<Rightarrow> Inr (h0 @ g'))"
      using attach_at_value [of h0 "[]" g su "predicate r" ?v] by (simp split: sum.splits)
    show ?thesis
    proof (cases "attach g su (predicate r) ?v")
      case (Inl e)
      with Some uris step show ?thesis by simp
    next
      case (Inr g1)
      from attach_length [OF Inr] have len: "length g1 = length g" .
      from Cons.IH [of g1] len
      have "attach_relations_at m (h0 @ g1) [length h0 ..< length h0 + length g] rs =
         (case attach_relations m g1 rs of Inl e \<Rightarrow> Inl e | Inr g' \<Rightarrow> Inr (h0 @ g'))"
        by simp
      with Some uris step Inr show ?thesis by simp
    qed
  qed
qed

lemma attach_relations_length:
  "attach_relations m g rs = Inr g' \<Longrightarrow> length g' = length g"
proof (induction rs arbitrary: g)
  case Nil
  then show ?case by simp
next
  case (Cons r rs)
  then show ?case
    by (auto split: option.splits sum.splits dest: attach_length)
qed

lemma jsonld_graph_at_value:
  assumes "refs_allocated h og"
  shows "jsonld_graph_at h og =
     (case jsonld_graph (graph_of h og) of
        Inl e \<Rightarrow> Inl e
      | Inr g \<Rightarrow> Inr ([length h ..< length h + length g], h @ g))"
proof -
  let ?m = "entity_uri_map (graph_of h og)"
  let ?es = "map (\<lambda>(key, eo). (key, entity_of h eo)) (obj_entities og)"
  from assms have refs: "\<forall>(key, eo) \<in> set (obj_entities og). obj_properties eo < length h"
    by (simp add: refs_allocated_def)
  note nodes = make_nodes_at_value [OF refs, of ?m]
  have es: "entities (graph_of h og) = ?es" and rs: "relations (graph_of h og) = obj_relations og"
    by (simp_all add: graph_of_def)
  show ?thesis
  proof (cases "make_nodes ?m ?es")
    case (Inl e)
    with nodes es show ?thesis by (simp add: jsonld_graph_at_def jsonld_graph_def)
  next
    case (Inr g0)
    note loop = attach_relations_at_value [of ?m h g0 "obj_relations og"]
    show ?thesis
    proof (cases "attach_relations ?m g0 (obj_relations og)")
      case (Inl e)
      with Inr nodes loop es rs show ?thesis
        by (simp add: jsonld_graph_at_def jsonld_graph_def)
    next
      case g: (Inr g)
      from attach_relations_length [OF g] have "length g = length g0" .
      with Inr g nodes loop es rs show ?thesis
        by (simp add: jsonld_graph_at_def jsonld_graph_def)
    qed
  qed
qed

text \<open>
  C9.  On a store in which every entity refers to an allocated dictionary, the
  linked-data export returns the document of the export on values and leaves every
  dictionary that existed before the call as it was, so the graph the objects stand for
  is the same after the call: entities with identifier, name, type, URI and properties,
  relations and text log.  The triple-text export and the query context leave the heap
  itself untouched.
\<close>

theorem consumers_leave_graph_unchanged:
  assumes "refs_allocated h og"
  shows "(\<exists>doc h'. to_jsonld_at h og = Inr (doc, h')
            \<and> to_jsonld (graph_of h og) = Inr doc
            \<and> take (length h) h' = h
            \<and> graph_of h' og = graph_of h og)
       \<and> to_rdf_at h og = (to_rdf (graph_of h og), h)
       \<and> graph_of (snd (to_rdf_at h og)) og = graph_of h og
       \<and> query_context_at str_of h og = (query_context str_of (graph_of h og), h)
       \<and> graph_of (snd (query_context_at str_of h og)) og = graph_of h og"
proof -
  from jsonld_graph_returns [of "graph_of h og"] obtain g where
    g: "jsonld_graph (graph_of h og) = Inr g" by blast
  with jsonld_graph_at_value [OF assms]
  have at: "jsonld_graph_at h og = Inr ([length h ..< length h + length g], h @ g)" by simp
  from jsonld_graph_at_frame [OF at]
  have frame: "length h \<le> length (h @ g)" "take (length h) (h @ g) = h" by simp_all
  have same: "graph_of (h @ g) og = graph_of h og"
    by (rule graph_of_frame [OF assms frame])
  have read: "map (\<lambda>a. JObj (heap_get (h @ g) a)) [length h ..< length h + length g] = map JObj g"
    by (rule nth_equalityI) (simp_all add: heap_get_def nth_append)
  have "to_jsonld_at h og = Inr (JObj [(''@context'', JStr ''https://schema.org''),
                                      (''@graph'', JArr (map JObj g))], h @ g)"
    using at read by (simp add: to_jsonld_at_def)
  moreover have "to_jsonld (graph_of h og) = Inr (JObj [(''@context'', JStr ''https://schema.org''),
                                      (''@graph'', JArr (map JObj g))])"
    using g by (simp add: to_jsonld_def)
  ultimately have export: "\<exists>doc h'. to_jsonld_at h og = Inr (doc, h')
            \<and> to_jsonld (graph_of h og) = Inr doc
            \<and> take (length h) h' = h
            \<and> graph_of h' og = graph_of h og"
    using frame(2) same by blast
  then show ?thesis by (simp add: to_rdf_at_def query_context_at_def)
qed

theorem consumers_leave_graph_unchanged_witness:
  "graph_of demo_heap demo_objects = demo_graph
   \<and> (\<exists>doc h'. to_jsonld_at demo_heap demo_objects = Inr (doc, h')
         \<and> to_jsonld demo_graph = Inr doc
         \<and> take 2 h' = demo_heap
         \<and> graph_of h' demo_objects = demo_graph)
   \<and> snd (to_rdf_at demo_heap demo_objects) = demo_heap
   \<and> snd (query_context_at (\<lambda>v. ''?'') demo_heap demo_objects) = demo_heap"
proof -
  have alloc: "refs_allocated demo_heap demo_objects"
    by (simp add: refs_allocated_def demo_heap_def demo_objects_def)
  have len: "length demo_heap = 2" by (simp add: demo_heap_def)
  from consumers_leave_graph_unchanged [OF alloc, of "\<lambda>v. ''?''"] alloc len demo_eval
  show ?thesis by simp
qed

end
